theory Spec2Isabelle
  imports
    Main
    "HOL-Library.Word"
    "HOL-Library.Sublist"
    "HOL-Library.Char_ord"
    "HOL-Library.List_Lexorder"
begin

section \<open>Picoschema: a shallow embedding of \<^verbatim>\<open>picoschema.go\<close>\<close>

text \<open>
  The package turns the result of a YAML decoder (a Go value of type \<^verbatim>\<open>any\<close>) into a
  \<^verbatim>\<open>jsonschema.Schema\<close>. Three functions do the work: \<^verbatim>\<open>ToJSONSchema\<close> (the entry point),
  \<^verbatim>\<open>parsePico\<close> (the shorthand grammar) and \<^verbatim>\<open>mapToJSONSchema\<close> (the reflective mapper);
  \<^verbatim>\<open>ConvertSchema\<close> and \<^verbatim>\<open>sortSchemaSlices\<close> produce a canonical form.
\<close>

subsection \<open>Dynamic values\<close>

text \<open>
  A value of type \<^verbatim>\<open>any\<close>, by the dynamic types the source tells apart in its type
  switches and assertions.

  \<^item> \<open>DInt\<close> is a value of type \<^verbatim>\<open>int\<close>, \<^verbatim>\<open>int8\<close>, ..., \<^verbatim>\<open>int64\<close>: the word holds what
    \<^verbatim>\<open>reflect.Value.Int\<close> returns (the value sign-extended to 64 bits), read by \<open>sint\<close>.
  \<^item> \<open>DUint\<close> is a value of type \<^verbatim>\<open>uint\<close>, ..., \<^verbatim>\<open>uint64\<close>, \<^verbatim>\<open>uintptr\<close>: the word holds
    what \<^verbatim>\<open>reflect.Value.Uint\<close> returns.
  \<^item> \<open>DFloat m e\<close> is a floating-point number, the value \<open>m * 2 ^ e\<close>; the source never looks
    at the value of a float, only at its type.
  \<^item> \<open>DSlice\<close> is a non-nil \<^verbatim>\<open>[]any\<close>, as decoders produce it (also for an empty sequence);
    a nil slice inside an interface value is not modelled.
  \<^item> \<open>DMap\<close> is a \<^verbatim>\<open>map[string]any\<close>. A Go map has no order of its own and \<^verbatim>\<open>range\<close>
    visits its entries in an order that Go leaves unspecified (and changes from run to
    run). The list holds the entries in the order in which \<^verbatim>\<open>range\<close> visits them in the run
    that is modelled: a Go map is a list with distinct keys, and every permutation of the
    list is the same Go map.
  \<^item> \<open>DMapSlice\<close> is a \<^verbatim>\<open>[]map[string]any\<close>, the type line 232 of the source asserts.

  Values of other dynamic types (structs, pointers, channels) are not modelled; the source
  treats them as it treats a floating-point number.
\<close>

datatype dyn =
    DNil
  | DBool bool
  | DInt "64 word"
  | DUint "64 word"
  | DFloat int int
  | DString string
  | DSlice "dyn list"
  | DMap "(string \<times> dyn) list"
  | DMapSlice "(string \<times> dyn) list list"

text \<open>Two entry lists are the same Go map when they have distinct keys and the same entries.\<close>

definition same_go_map :: "(string \<times> dyn) list \<Rightarrow> (string \<times> dyn) list \<Rightarrow> bool" where
  "same_go_map xs ys \<longleftrightarrow>
     distinct (map fst xs) \<and> distinct (map fst ys) \<and> set xs = set ys"

subsection \<open>The functions of package \<^verbatim>\<open>strings\<close> that the source calls\<close>

text \<open>
  A Go string is a sequence of bytes, as \<^typ>\<open>string\<close> is. \<^verbatim>\<open>strings.Cut(s, sep)\<close> splits \<open>s\<close>
  around the first instance of \<open>sep\<close>; without one it returns \<open>(s, "", false)\<close>.
\<close>

fun Cut :: "string \<Rightarrow> string \<Rightarrow> string \<times> string \<times> bool" where
  "Cut [] sep = ([], [], sep = [])"
| "Cut (c # s) sep =
     (if prefix sep (c # s) then ([], drop (length sep) (c # s), True)
      else (case Cut s sep of (before, after, found) \<Rightarrow> (c # before, after, found)))"

definition CutSuffix :: "string \<Rightarrow> string \<Rightarrow> string \<times> bool" where
  "CutSuffix s suf =
     (if suffix suf s then (take (length s - length suf) s, True) else (s, False))"

definition TrimSuffix :: "string \<Rightarrow> string \<Rightarrow> string" where
  "TrimSuffix s suf = fst (CutSuffix s suf)"

text \<open>
  \<^verbatim>\<open>strings.TrimSpace\<close> removes the leading and the trailing white space, as Unicode defines
  it (\<^verbatim>\<open>unicode.IsSpace\<close>). On the bytes of a string these are the UTF-8 encodings below: the
  six ASCII characters, U+0085, U+00A0, U+1680, U+2000 to U+200A, U+2028, U+2029, U+202F,
  U+205F and U+3000. No encoding is a prefix of another one, and a byte sequence decodes to
  one of these runes (from the front or from the back) exactly when it is its encoding.
\<close>

definition spaceRunes :: "string list" where
  "spaceRunes =
     [[CHR 0x09], [CHR 0x0A], [CHR 0x0B], [CHR 0x0C], [CHR 0x0D], [CHR 0x20],
      [CHR 0xC2, CHR 0x85], [CHR 0xC2, CHR 0xA0],
      [CHR 0xE1, CHR 0x9A, CHR 0x80],
      [CHR 0xE2, CHR 0x80, CHR 0x80], [CHR 0xE2, CHR 0x80, CHR 0x81],
      [CHR 0xE2, CHR 0x80, CHR 0x82], [CHR 0xE2, CHR 0x80, CHR 0x83],
      [CHR 0xE2, CHR 0x80, CHR 0x84], [CHR 0xE2, CHR 0x80, CHR 0x85],
      [CHR 0xE2, CHR 0x80, CHR 0x86], [CHR 0xE2, CHR 0x80, CHR 0x87],
      [CHR 0xE2, CHR 0x80, CHR 0x88], [CHR 0xE2, CHR 0x80, CHR 0x89],
      [CHR 0xE2, CHR 0x80, CHR 0x8A],
      [CHR 0xE2, CHR 0x80, CHR 0xA8], [CHR 0xE2, CHR 0x80, CHR 0xA9],
      [CHR 0xE2, CHR 0x80, CHR 0xAF], [CHR 0xE2, CHR 0x81, CHR 0x9F],
      [CHR 0xE3, CHR 0x80, CHR 0x80]]"

text \<open>The length of the white-space rune that \<open>s\<close> starts with, if it starts with one.\<close>

definition leadingSpace :: "string \<Rightarrow> nat option" where
  "leadingSpace s =
     (case filter (\<lambda>w. prefix w s) spaceRunes of [] \<Rightarrow> None | w # _ \<Rightarrow> Some (length w))"

definition trailingSpace :: "string \<Rightarrow> nat option" where
  "trailingSpace s =
     (case filter (\<lambda>w. suffix w s) spaceRunes of [] \<Rightarrow> None | w # _ \<Rightarrow> Some (length w))"

function TrimLeft :: "string \<Rightarrow> string" where
  "TrimLeft s = (case leadingSpace s of None \<Rightarrow> s | Some n \<Rightarrow> TrimLeft (drop n s))"
  by pat_completeness auto
termination
proof (relation "measure length")
  show "wf (measure length)" by simp
next
  fix s :: string and n :: nat
  assume "leadingSpace s = Some n"
  then obtain w ws where f: "filter (\<lambda>w. prefix w s) spaceRunes = w # ws" and n: "n = length w"
    unfolding leadingSpace_def by (auto split: list.splits)
  from f have "w \<in> set (filter (\<lambda>w. prefix w s) spaceRunes)" by simp
  then have "w \<in> set spaceRunes" and "prefix w s" by auto
  then have "0 < length w" and "length w \<le> length s"
    unfolding spaceRunes_def by (auto simp: prefix_length_le)
  then show "(drop n s, s) \<in> measure length" using n by (cases w) auto
qed

function TrimRight :: "string \<Rightarrow> string" where
  "TrimRight s =
     (case trailingSpace s of None \<Rightarrow> s | Some n \<Rightarrow> TrimRight (take (length s - n) s))"
  by pat_completeness auto
termination
proof (relation "measure length")
  show "wf (measure length)" by simp
next
  fix s :: string and n :: nat
  assume "trailingSpace s = Some n"
  then obtain w ws where f: "filter (\<lambda>w. suffix w s) spaceRunes = w # ws" and n: "n = length w"
    unfolding trailingSpace_def by (auto split: list.splits)
  from f have "w \<in> set (filter (\<lambda>w. suffix w s) spaceRunes)" by simp
  then have "w \<in> set spaceRunes" and "suffix w s" by auto
  then have "0 < length w" and "length w \<le> length s"
    unfolding spaceRunes_def by (auto simp: suffix_length_le)
  then show "(take (length s - n) s, s) \<in> measure length" using n by (cases w) auto
qed

declare TrimLeft.simps [simp del] TrimRight.simps [simp del]

definition TrimSpace :: "string \<Rightarrow> string" where
  "TrimSpace s = TrimRight (TrimLeft s)"

subsection \<open>The schema\<close>

text \<open>
  Modelled from the spec: the declaration of \<^verbatim>\<open>jsonschema.Schema\<close>, a struct of the library
  \<^verbatim>\<open>github.com/invopop/jsonschema\<close> (v0.12.0 in \<^verbatim>\<open>go.mod\<close>), is not among the sources. The
  model has the attributes of a Schema Node of the spec (section 3), under the names and
  with the types that the library declares and the source uses. The fields that the source names (\<^verbatim>\<open>Type\<close>, \<^verbatim>\<open>Description\<close>, \<^verbatim>\<open>Enum\<close>, \<^verbatim>\<open>Properties\<close>, \<^verbatim>\<open>Items\<close>,
  \<^verbatim>\<open>Required\<close>, \<^verbatim>\<open>AdditionalProperties\<close>) are fields of the model, and so is the unexported
  \<^verbatim>\<open>boolean\<close>, which tells \<^verbatim>\<open>jsonschema.FalseSchema\<close> from the zero schema. Every other field
  is reached through reflection only and lives in \<open>Fields\<close>, under its JSON name.

  A pointer is an \<open>option\<close> (\<open>None\<close> is \<^verbatim>\<open>nil\<close>). \<open>Enum\<close> is an \<open>option\<close> because the source
  compares it with \<^verbatim>\<open>nil\<close>. \<open>Properties\<close> is the ordered map of the library
  \<^verbatim>\<open>github.com/wk8/go-ordered-map\<close>: the pairs in insertion order. The schemas of a result
  form a tree: every node is allocated by the call that returns it.
\<close>

datatype schema = Schema
    (Type: string)
    (Description: string)
    (Enum: "dyn list option")
    (Properties: "(string \<times> schema) list option")
    (Items: "schema option")
    (Required: "string list")
    (AdditionalProperties: "schema option")
    (boolean: "bool option")
    (Fields: "(string \<times> fieldval) list")
and fieldval =
    VAny dyn
  | VString string
  | VUint64 "64 word"
  | VBool bool
  | VStrings "string list"
  | VSchema schema
  | VSchemas "schema list"
  | VProperties "(string \<times> schema) list"

text \<open>The zero value \<^verbatim>\<open>jsonschema.Schema{}\<close> and the library's \<^verbatim>\<open>FalseSchema\<close>.\<close>

definition zeroSchema :: schema where
  "zeroSchema = Schema [] [] None None None [] None None []"

definition FalseSchema :: schema where
  "FalseSchema = Schema [] [] None None None [] None (Some False) []"

text \<open>Assignments to one field.\<close>

fun set_Type :: "string \<Rightarrow> schema \<Rightarrow> schema" where
  "set_Type x (Schema t d e p i r a b f) = Schema x d e p i r a b f"

fun set_Description :: "string \<Rightarrow> schema \<Rightarrow> schema" where
  "set_Description x (Schema t d e p i r a b f) = Schema t x e p i r a b f"

fun set_Enum :: "dyn list option \<Rightarrow> schema \<Rightarrow> schema" where
  "set_Enum x (Schema t d e p i r a b f) = Schema t d x p i r a b f"

fun set_Properties :: "(string \<times> schema) list option \<Rightarrow> schema \<Rightarrow> schema" where
  "set_Properties x (Schema t d e p i r a b f) = Schema t d e x i r a b f"

fun set_Items :: "schema option \<Rightarrow> schema \<Rightarrow> schema" where
  "set_Items x (Schema t d e p i r a b f) = Schema t d e p x r a b f"

fun set_Required :: "string list \<Rightarrow> schema \<Rightarrow> schema" where
  "set_Required x (Schema t d e p i r a b f) = Schema t d e p i x a b f"

fun set_AdditionalProperties :: "schema option \<Rightarrow> schema \<Rightarrow> schema" where
  "set_AdditionalProperties x (Schema t d e p i r a b f) = Schema t d e p i r x b f"

fun set_Fields :: "(string \<times> fieldval) list \<Rightarrow> schema \<Rightarrow> schema" where
  "set_Fields x (Schema t d e p i r a b f) = Schema t d e p i r a b x"

text \<open>
  \<^verbatim>\<open>OrderedMap.Set(key, value)\<close>: a key that is present keeps its place and gets the new
  value; a new key goes to the end.
\<close>

fun om_Set :: "string \<Rightarrow> 'v \<Rightarrow> (string \<times> 'v) list \<Rightarrow> (string \<times> 'v) list" where
  "om_Set k v [] = [(k, v)]"
| "om_Set k v ((k', v') # om) = (if k' = k then (k, v) # om else (k', v') # om_Set k v om)"

text \<open>
  \<^verbatim>\<open>ret.Properties.Set(name, property)\<close>. On a nil map the library panics; \<^verbatim>\<open>parsePico\<close>
  only calls it on the map it has made itself, so the model leaves a nil map as it is.
\<close>

definition Properties_Set :: "string \<Rightarrow> schema \<Rightarrow> schema \<Rightarrow> schema" where
  "Properties_Set name property ret =
     set_Properties (map_option (om_Set name property) (Properties ret)) ret"

subsection \<open>Errors\<close>

text \<open>One constructor for each \<^verbatim>\<open>fmt.Errorf\<close> of the source, with the values it formats.\<close>

datatype error =
    NotObjectSliceOrString dyn
  | UnsupportedScalarType string
  | EnumNotArray schema
  | ParentheticalNoneOf string
  | UnrecognizedField string
  | FoundTypeWant dyn string string
  | FoundTypeWantInteger dyn string
  | FoundTypeElement dyn nat string
  | FailedToConvertField string error
  | ErrorInField string error
  | ErrorInFieldKey string string error
  | UnsupportedFieldType string

subsection \<open>\<^verbatim>\<open>parsePico\<close>\<close>

text \<open>The scalar type names of line 68.\<close>

definition scalarTypes :: "string list" where
  "scalarTypes = [''string'', ''boolean'', ''null'', ''number'', ''integer'', ''any'']"

text \<open>
  The body of the loop over a mapping (lines 92 to 141) in three parts: lines 93 to 97,
  the recursive call of line 99, and lines 104 to 140. \<open>markRequired\<close> is lines 93 to 97: the
  key is cut at the first parenthesis, the name loses one question mark, and a name that is
  not empty and not optional is appended to \<^verbatim>\<open>Required\<close>. (An error of line 99 discards
  \<open>ret\<close>, so the loop below may parse the value before it appends the name.)
\<close>

definition markRequired :: "string \<Rightarrow> schema \<Rightarrow> schema" where
  "markRequired k ret =
     (case Cut k ''('' of (name, typ, found) \<Rightarrow>
      case CutSuffix name ''?'' of (propertyName, isOptional) \<Rightarrow>
        if name \<noteq> [] \<and> \<not> isOptional then set_Required (Required ret @ [propertyName]) ret
        else ret)"

text \<open>
  \<open>storeProperty\<close> is lines 104 to 140, what the loop does with the parsed value of the
  entry: the new \<open>ret\<close>, or the error that ends the translation.
\<close>

definition storeProperty :: "string \<Rightarrow> schema \<Rightarrow> schema \<Rightarrow> error + schema" where
  "storeProperty k property ret =
     (case Cut k ''('' of (name, typ, found) \<Rightarrow>
      case CutSuffix name ''?'' of (propertyName, isOptional) \<Rightarrow>
        if \<not> found then Inr (Properties_Set propertyName property ret)
        else
          (case Cut (TrimSuffix (TrimSuffix typ '')'') '')'') '','' of (typ, desc, found) \<Rightarrow>
           let describe = (\<lambda>p. if found then set_Description (TrimSpace desc) p else p) in
           if typ = ''array'' then
             Inr (Properties_Set propertyName
                    (describe (set_Items (Some property) (set_Type ''array'' zeroSchema))) ret)
           else if typ = ''object'' then
             Inr (Properties_Set propertyName (describe property) ret)
           else if typ = ''enum'' then
             (case Enum property of
                None \<Rightarrow> Inl (EnumNotArray property)
              | Some vals \<Rightarrow>
                  Inr (Properties_Set propertyName
                         (describe (if isOptional then set_Enum (Some (vals @ [DNil])) property
                                    else property)) ret))
           else if typ = ''*'' then
             Inr (set_AdditionalProperties (Some property) ret)
           else Inl (ParentheticalNoneOf typ)))"

text \<open>
  \<open>parsePico_range\<close> is the loop: \<open>ret\<close> is the object under construction and the list
  holds the entries that \<^verbatim>\<open>range\<close> has still to visit.
\<close>

fun parsePico :: "dyn \<Rightarrow> error + schema"
  and parsePico_range :: "schema \<Rightarrow> (string \<times> dyn) list \<Rightarrow> error + schema" where
  "parsePico (DString val) =
     (case Cut val '','' of (typ, desc, found) \<Rightarrow>
        if typ \<notin> set scalarTypes then Inl (UnsupportedScalarType typ)
        else
          let ret = set_Type (if typ = ''any'' then [] else typ) zeroSchema
          in Inr (if found then set_Description (TrimSpace desc) ret else ret))"
| "parsePico (DSlice val) = Inr (set_Enum (Some val) zeroSchema)"
| "parsePico (DMap val) =
     parsePico_range
       (set_AdditionalProperties (Some FalseSchema)
          (set_Properties (Some []) (set_Type ''object'' zeroSchema)))
       val"
| "parsePico DNil = Inl (NotObjectSliceOrString DNil)"
| "parsePico (DBool b) = Inl (NotObjectSliceOrString (DBool b))"
| "parsePico (DInt i) = Inl (NotObjectSliceOrString (DInt i))"
| "parsePico (DUint u) = Inl (NotObjectSliceOrString (DUint u))"
| "parsePico (DFloat m e) = Inl (NotObjectSliceOrString (DFloat m e))"
| "parsePico (DMapSlice s) = Inl (NotObjectSliceOrString (DMapSlice s))"
| "parsePico_range ret [] = Inr ret"
| "parsePico_range ret ((k, v) # rest) =
     (case parsePico v of
        Inl err \<Rightarrow> Inl err
      | Inr property \<Rightarrow>
          (case storeProperty k property (markRequired k ret) of
             Inl err \<Rightarrow> Inl err
           | Inr ret' \<Rightarrow> parsePico_range ret' rest))"

subsection \<open>\<^verbatim>\<open>mapToJSONSchema\<close>\<close>

text \<open>
  The function walks the fields of \<^verbatim>\<open>jsonschema.Schema\<close> by reflection and switches on the
  Go type of the field that a key names. \<open>gotype\<close> lists the types the switch tells apart;
  \<open>TOther\<close> is every type that falls to its \<^verbatim>\<open>default\<close>.
\<close>

datatype gotype =
    TAny | TString | TUint64Ptr | TBool | TStrings | TNumber
  | TSchemaPtr | TSchemaSlice | TOrderedMap | TOther

text \<open>
  Modelled from the spec: the fixed table of the recognized field names and their shapes
  (section 4.3). \<open>jsonMap\<close> is the table that lines 153 to 161 build from the struct tags:
  the JSON name of every tagged field, here with the type of the field. The struct is
  the library's (v0.12.0), not among the sources, and the entries follow its declaration.
  The last entry is the field \<^verbatim>\<open>Extras\<close>, whose tag is \<^verbatim>\<open>json:"-"\<close>.
\<close>

definition jsonMap :: "(string \<times> gotype) list" where
  "jsonMap =
     [(''$schema'', TString), (''$id'', TOther), (''$anchor'', TString), (''$ref'', TString),
      (''$dynamicRef'', TString), (''$defs'', TOther), (''$comment'', TString),
      (''allOf'', TSchemaSlice), (''anyOf'', TSchemaSlice), (''oneOf'', TSchemaSlice),
      (''not'', TSchemaPtr), (''if'', TSchemaPtr), (''then'', TSchemaPtr),
      (''else'', TSchemaPtr), (''dependentSchemas'', TOther),
      (''prefixItems'', TSchemaSlice), (''items'', TSchemaPtr), (''contains'', TSchemaPtr),
      (''properties'', TOrderedMap), (''patternProperties'', TOther),
      (''additionalProperties'', TSchemaPtr), (''propertyNames'', TSchemaPtr),
      (''type'', TString), (''enum'', TOther), (''const'', TAny),
      (''multipleOf'', TNumber), (''maximum'', TNumber), (''exclusiveMaximum'', TNumber),
      (''minimum'', TNumber), (''exclusiveMinimum'', TNumber),
      (''maxLength'', TUint64Ptr), (''minLength'', TUint64Ptr), (''pattern'', TString),
      (''maxItems'', TUint64Ptr), (''minItems'', TUint64Ptr), (''uniqueItems'', TBool),
      (''maxContains'', TUint64Ptr), (''minContains'', TUint64Ptr),
      (''maxProperties'', TUint64Ptr), (''minProperties'', TUint64Ptr),
      (''required'', TStrings), (''dependentRequired'', TOther),
      (''format'', TString), (''contentEncoding'', TString),
      (''contentMediaType'', TString), (''contentSchema'', TSchemaPtr),
      (''title'', TString), (''description'', TString), (''default'', TAny),
      (''deprecated'', TBool), (''readOnly'', TBool), (''writeOnly'', TBool),
      (''examples'', TOther), (''-'', TOther)]"

text \<open>
  \<^verbatim>\<open>rf.Set\<close>: the assignment to the field with JSON name \<open>k\<close>. A field that the model
  names is assigned there, every other field in \<open>Fields\<close>.
\<close>

fun rf_Set :: "string \<Rightarrow> fieldval \<Rightarrow> schema \<Rightarrow> schema" where
  "rf_Set k (VString x) s =
     (if k = ''type'' then set_Type x s
      else if k = ''description'' then set_Description x s
      else set_Fields (om_Set k (VString x) (Fields s)) s)"
| "rf_Set k (VStrings xs) s =
     (if k = ''required'' then set_Required xs s
      else set_Fields (om_Set k (VStrings xs) (Fields s)) s)"
| "rf_Set k (VSchema c) s =
     (if k = ''items'' then set_Items (Some c) s
      else if k = ''additionalProperties'' then set_AdditionalProperties (Some c) s
      else set_Fields (om_Set k (VSchema c) (Fields s)) s)"
| "rf_Set k (VProperties om) s =
     (if k = ''properties'' then set_Properties (Some om) s
      else set_Fields (om_Set k (VProperties om) (Fields s)) s)"
| "rf_Set k v s = set_Fields (om_Set k v (Fields s)) s"

text \<open>The loop of lines 204 to 210: every element of the sequence must be a string.\<close>

fun toStrings :: "string \<Rightarrow> nat \<Rightarrow> dyn list \<Rightarrow> error + string list" where
  "toStrings k i [] = Inr []"
| "toStrings k i (astr # astrs) =
     (case astr of
        DString s \<Rightarrow>
          (case toStrings k (Suc i) astrs of
             Inl err \<Rightarrow> Inl err
           | Inr sstrs \<Rightarrow> Inr (s # sstrs))
      | _ \<Rightarrow> Inl (FoundTypeElement astr i k))"

text \<open>
  A call of \<^verbatim>\<open>mapToJSONSchema\<close> returns an error or a schema, or it panics: the case for a
  field of type \<^verbatim>\<open>any\<close> (line 171) calls \<^verbatim>\<open>rf.Set(reflect.ValueOf(v))\<close>, and for \<^verbatim>\<open>nil\<close> the
  value \<^verbatim>\<open>reflect.ValueOf(nil)\<close> is the zero \<^verbatim>\<open>reflect.Value\<close>, on which \<^verbatim>\<open>Set\<close> panics. No
  function of the package recovers, so a panic ends every caller.
\<close>

datatype 'a outcome = Panics | Returns 'a

text \<open>
  The cases of the switch that do not recurse (lines 170 to 218 and 265): the value to
  assign to field \<open>k\<close> of type \<open>ty\<close>, or the error. In the case of \<^verbatim>\<open>*uint64\<close> a value of an
  unsigned type is taken as it is, and a value of a signed type is converted by
  \<^verbatim>\<open>uint64(reflect.ValueOf(v).Int())\<close>, which keeps the 64 bits.
\<close>

fun convertField :: "gotype \<Rightarrow> string \<Rightarrow> dyn \<Rightarrow> (error + fieldval) outcome" where
  "convertField TAny k v = (if v = DNil then Panics else Returns (Inr (VAny v)))"
| "convertField TString k v =
     (case v of
        DString str \<Rightarrow> Returns (Inr (VString str))
      | _ \<Rightarrow> Returns (Inl (FoundTypeWant v k ''string'')))"
| "convertField TUint64Ptr k v =
     (case v of
        DUint u \<Rightarrow> Returns (Inr (VUint64 u))
      | DInt i \<Rightarrow> Returns (Inr (VUint64 (word_of_int (sint i))))
      | _ \<Rightarrow> Returns (Inl (FoundTypeWantInteger v k)))"
| "convertField TBool k v =
     (case v of
        DBool b \<Rightarrow> Returns (Inr (VBool b))
      | _ \<Rightarrow> Returns (Inl (FoundTypeWant v k ''bool'')))"
| "convertField TStrings k v =
     (case v of
        DSlice astrs \<Rightarrow>
          (case toStrings k 0 astrs of
             Inl err \<Rightarrow> Returns (Inl err)
           | Inr sstrs \<Rightarrow> Returns (Inr (VStrings sstrs)))
      | _ \<Rightarrow> Returns (Inl (FoundTypeWant v k ''[]interface {}'')))"
| "convertField TNumber k v =
     (case v of
        DString s \<Rightarrow> Returns (Inr (VString s))
      | _ \<Rightarrow> Returns (Inl (FoundTypeWant v k ''string'')))"
| "convertField ty k v = Returns (Inl (UnsupportedFieldType k))"

text \<open>
  The loop over the entries of \<open>m\<close> (lines 163 to 268) is \<open>mapToJSONSchema_range\<close>, with the
  schema under construction; the loop of lines 237 to 243 is \<open>mapToJSONSchema_slice\<close> and
  the loop of lines 252 to 262 is \<open>mapToJSONSchema_om\<close>, each with what it has collected. A
  recursive call \<^verbatim>\<open>mapToJSONSchema(m)\<close> is the loop over \<open>m\<close> from the zero schema.
\<close>

fun mapToJSONSchema_range ::
    "schema \<Rightarrow> (string \<times> dyn) list \<Rightarrow> (error + schema) outcome"
  and mapToJSONSchema_slice ::
    "string \<Rightarrow> schema list \<Rightarrow> (string \<times> dyn) list list \<Rightarrow> (error + schema list) outcome"
  and mapToJSONSchema_om ::
    "string \<Rightarrow> (string \<times> schema) list \<Rightarrow> (string \<times> dyn) list \<Rightarrow>
       (error + (string \<times> schema) list) outcome" where
  "mapToJSONSchema_range ret [] = Returns (Inr ret)"
| "mapToJSONSchema_range ret ((k, v) # rest) =
     (case map_of jsonMap k of
        None \<Rightarrow> Returns (Inl (UnrecognizedField k))
      | Some ty \<Rightarrow>
          (case
             (if ty = TSchemaPtr then
                (case v of
                   DMap m \<Rightarrow>
                     (case mapToJSONSchema_range zeroSchema m of
                        Panics \<Rightarrow> Panics
                      | Returns (Inl err) \<Rightarrow> Returns (Inl (FailedToConvertField k err))
                      | Returns (Inr schema) \<Rightarrow> Returns (Inr (VSchema schema)))
                 | _ \<Rightarrow> Returns (Inl (FoundTypeWant v k ''map[string]interface {}'')))
              else if ty = TSchemaSlice then
                (case v of
                   DMapSlice s \<Rightarrow>
                     (case mapToJSONSchema_slice k [] s of
                        Panics \<Rightarrow> Panics
                      | Returns (Inl err) \<Rightarrow> Returns (Inl err)
                      | Returns (Inr schemas) \<Rightarrow> Returns (Inr (VSchemas schemas)))
                 | _ \<Rightarrow> Returns (Inl (FoundTypeWant v k ''[]map[string]interface {}'')))
              else if ty = TOrderedMap then
                (case v of
                   DMap m \<Rightarrow>
                     (case mapToJSONSchema_om k [] m of
                        Panics \<Rightarrow> Panics
                      | Returns (Inl err) \<Rightarrow> Returns (Inl err)
                      | Returns (Inr om) \<Rightarrow> Returns (Inr (VProperties om)))
                 | _ \<Rightarrow> Returns (Inl (FoundTypeWant v k ''map[string]interface {}'')))
              else convertField ty k v)
           of
             Panics \<Rightarrow> Panics
           | Returns (Inl err) \<Rightarrow> Returns (Inl err)
           | Returns (Inr fv) \<Rightarrow> mapToJSONSchema_range (rf_Set k fv ret) rest))"
| "mapToJSONSchema_slice k schemas [] = Returns (Inr schemas)"
| "mapToJSONSchema_slice k schemas (m # s) =
     (case mapToJSONSchema_range zeroSchema m of
        Panics \<Rightarrow> Panics
      | Returns (Inl err) \<Rightarrow> Returns (Inl (ErrorInField k err))
      | Returns (Inr schema) \<Rightarrow> mapToJSONSchema_slice k (schemas @ [schema]) s)"
| "mapToJSONSchema_om k om [] = Returns (Inr om)"
| "mapToJSONSchema_om k om ((mk, mv) # rest) =
     (case mv of
        DMap mvm \<Rightarrow>
          (case mapToJSONSchema_range zeroSchema mvm of
             Panics \<Rightarrow> Panics
           | Returns (Inl err) \<Rightarrow> Returns (Inl (ErrorInFieldKey k mk err))
           | Returns (Inr schema) \<Rightarrow> mapToJSONSchema_om k (om_Set mk schema om) rest)
      | _ \<Rightarrow> Returns (Inl (FoundTypeWant mv k ''map[string]interface {}'')))"

definition mapToJSONSchema :: "(string \<times> dyn) list \<Rightarrow> (error + schema) outcome" where
  "mapToJSONSchema m = mapToJSONSchema_range zeroSchema m"

subsection \<open>\<^verbatim>\<open>ToJSONSchema\<close>\<close>

text \<open>The type names of line 40.\<close>

definition jsonTypes :: "string list" where
  "jsonTypes =
     [''string'', ''boolean'', ''null'', ''number'', ''integer'', ''object'', ''array'']"

text \<open>
  The function returns a pair \<^verbatim>\<open>(*jsonschema.Schema, error)\<close>, and for \<^verbatim>\<open>nil\<close> both are
  \<^verbatim>\<open>nil\<close>. \<^verbatim>\<open>parsePico\<close> and \<^verbatim>\<open>mapToJSONSchema\<close> return either \<^verbatim>\<open>nil\<close> and an error or a
  schema and \<^verbatim>\<open>nil\<close> at every \<^verbatim>\<open>return\<close>; \<open>go_return\<close> is that pair. \<^verbatim>\<open>m["type"]\<close> is the
  lookup \<open>map_of m\<close>. A panic of \<^verbatim>\<open>mapToJSONSchema\<close> is a panic of \<^verbatim>\<open>ToJSONSchema\<close>.
\<close>

definition go_return :: "error + schema \<Rightarrow> schema option \<times> error option" where
  "go_return r = (case r of Inl err \<Rightarrow> (None, Some err) | Inr s \<Rightarrow> (Some s, None))"

definition ToJSONSchema :: "dyn \<Rightarrow> (schema option \<times> error option) outcome" where
  "ToJSONSchema val =
     (if val = DNil then Returns (None, None)
      else
        (case val of
           DMap m \<Rightarrow>
             (if map_of m ''type'' \<in> set (map (\<lambda>t. Some (DString t)) jsonTypes)
              then
                (case mapToJSONSchema m of
                   Panics \<Rightarrow> Panics
                 | Returns r \<Rightarrow> Returns (go_return r))
              else
                (case map_of m ''properties'' of
                   Some (DMap p) \<Rightarrow>
                     (case mapToJSONSchema m of
                        Panics \<Rightarrow> Panics
                      | Returns (Inl err) \<Rightarrow> Returns (None, Some err)
                      | Returns (Inr s) \<Rightarrow> Returns (Some (set_Type ''object'' s), None))
                 | _ \<Rightarrow> Returns (go_return (parsePico val))))
         | _ \<Rightarrow> Returns (go_return (parsePico val))))"

subsection \<open>\<^verbatim>\<open>ConvertSchema\<close> and \<^verbatim>\<open>sortSchemaSlices\<close>\<close>

text \<open>
  \<^verbatim>\<open>slices.Sort\<close> on strings sorts by the byte-wise lexicographic order of Go's \<open><\<close>, which is
  the order of \<^typ>\<open>string\<close> here; equal strings cannot be told apart, so the result is
  \<^const>\<open>sort\<close>. The function sorts in place: the model returns the schema after the call.
\<close>

fun sortSchemaSlices :: "schema \<Rightarrow> schema" where
  "sortSchemaSlices (Schema t d e p i r a b f) =
     Schema t d e
       (map_option (map (\<lambda>(name, c). (name, sortSchemaSlices c))) p)
       (map_option sortSchemaSlices i)
       (sort r) a b f"

text \<open>
  \<^verbatim>\<open>json.Marshal\<close> and \<^verbatim>\<open>json.Unmarshal\<close> are not of this package: they are parameters, any
  two functions. The result is the schema after the call (the argument is sorted in
  place) and what the function returns.
\<close>

definition ConvertSchema ::
    "(schema \<Rightarrow> 'e + string) \<Rightarrow> (string \<Rightarrow> 'e + dyn) \<Rightarrow> schema \<Rightarrow> schema \<times> ('e + dyn)" where
  "ConvertSchema Marshal Unmarshal s =
     (let s' = sortSchemaSlices s
      in (s', case Marshal s' of Inl err \<Rightarrow> Inl err | Inr data \<Rightarrow> Unmarshal data))"

subsection \<open>The nodes of a schema\<close>

text \<open>
  Every schema of the tree under \<open>s\<close>, \<open>s\<close> first: through \<open>Properties\<close>, \<open>Items\<close>,
  \<open>AdditionalProperties\<close> and the schema-valued fields in \<open>Fields\<close>.
\<close>

fun nodes :: "schema \<Rightarrow> schema list"
  and fieldval_nodes :: "fieldval \<Rightarrow> schema list" where
  "nodes (Schema t d e p i r a b f) =
     Schema t d e p i r a b f #
       (case p of None \<Rightarrow> [] | Some ps \<Rightarrow> concat (map (\<lambda>(name, c). nodes c) ps)) @
       (case i of None \<Rightarrow> [] | Some c \<Rightarrow> nodes c) @
       (case a of None \<Rightarrow> [] | Some c \<Rightarrow> nodes c) @
       concat (map (\<lambda>(name, fv). fieldval_nodes fv) f)"
| "fieldval_nodes (VSchema c) = nodes c"
| "fieldval_nodes (VSchemas cs) = concat (map nodes cs)"
| "fieldval_nodes (VProperties ps) = concat (map (\<lambda>(name, c). nodes c) ps)"
| "fieldval_nodes fv = []"

text \<open>The nodes that \<^verbatim>\<open>sortSchemaSlices\<close> visits: through \<open>Properties\<close> and \<open>Items\<close> only.\<close>

fun sorted_nodes :: "schema \<Rightarrow> schema list" where
  "sorted_nodes (Schema t d e p i r a b f) =
     Schema t d e p i r a b f #
       (case p of None \<Rightarrow> [] | Some ps \<Rightarrow> concat (map (\<lambda>(name, c). sorted_nodes c) ps)) @
       (case i of None \<Rightarrow> [] | Some c \<Rightarrow> sorted_nodes c)"

subsection \<open>Vocabulary for the statements\<close>

text \<open>
  What the loop of \<^verbatim>\<open>parsePico\<close> reads from a key \<open>k\<close>, by the expressions of lines 93, 94
  and 110: the name before the first parenthesis, the property name (the name without one
  trailing question mark), whether the name is optional, and the parenthetical, if the key
  has one: its type, its description and whether it has a description.
\<close>

definition keyName :: "string \<Rightarrow> string" where
  "keyName k = fst (Cut k ''('')"

definition propertyName :: "string \<Rightarrow> string" where
  "propertyName k = fst (CutSuffix (keyName k) ''?'')"

definition isOptional :: "string \<Rightarrow> bool" where
  "isOptional k = snd (CutSuffix (keyName k) ''?'')"

definition parenthetical :: "string \<Rightarrow> (string \<times> string \<times> bool) option" where
  "parenthetical k =
     (case Cut k ''('' of (name, typ, found) \<Rightarrow>
        if found then Some (Cut (TrimSuffix (TrimSuffix typ '')'') '')'') '','') else None)"

definition modifier :: "string \<Rightarrow> string option" where
  "modifier k = map_option fst (parenthetical k)"

text \<open>Lines 136 to 138: the description of the parenthetical, if it has one, is assigned.\<close>

definition describe :: "string \<Rightarrow> schema \<Rightarrow> schema" where
  "describe k p =
     (case parenthetical k of
        Some (typ, desc, found) \<Rightarrow> if found then set_Description (TrimSpace desc) p else p
      | None \<Rightarrow> p)"

text \<open>A string made of white-space runes only.\<close>

definition whiteSpace :: "string \<Rightarrow> bool" where
  "whiteSpace l \<longleftrightarrow> (\<exists>ws. set ws \<subseteq> set spaceRunes \<and> l = concat ws)"

text \<open>A key whose entry is appended to \<^verbatim>\<open>Required\<close> (line 95).\<close>

definition isRequired :: "string \<Rightarrow> bool" where
  "isRequired k \<longleftrightarrow> keyName k \<noteq> [] \<and> \<not> isOptional k"

text \<open>The elements of a list in the order of their first occurrences.\<close>

definition firstSeen :: "'a list \<Rightarrow> 'a list" where
  "firstSeen xs = rev (remdups (rev xs))"

text \<open>
  Inputs of \<^verbatim>\<open>parsePico\<close>, by the values that it parses (the values of the entries of a
  mapping, not the elements of a sequence): \<open>wildcards_unnamed\<close> holds when every key with
  the modifier \<open>*\<close> has an empty or an optional name, as the key \<open>(*)\<close> has;
  \<open>sequences_nonempty\<close> holds when no parsed sequence is empty.
\<close>

fun wildcards_unnamed :: "dyn \<Rightarrow> bool" where
  "wildcards_unnamed (DMap m) =
     (\<forall>(k, v) \<in> set m. (modifier k = Some ''*'' \<longrightarrow> \<not> isRequired k) \<and> wildcards_unnamed v)"
| "wildcards_unnamed v = True"

fun sequences_nonempty :: "dyn \<Rightarrow> bool" where
  "sequences_nonempty (DSlice vals) = (vals \<noteq> [])"
| "sequences_nonempty (DMap m) = (\<forall>(k, v) \<in> set m. sequences_nonempty v)"
| "sequences_nonempty v = True"

text \<open>A property of every node of the tree under a schema.\<close>

definition all_nodes :: "(schema \<Rightarrow> bool) \<Rightarrow> schema \<Rightarrow> bool" where
  "all_nodes P s \<longleftrightarrow> (\<forall>n \<in> set (nodes s). P n)"

text \<open>
  A node with \<^verbatim>\<open>Properties\<close> whose \<^verbatim>\<open>Required\<close> names are keys of its \<^verbatim>\<open>Properties\<close>.
\<close>

definition required_in_properties :: "schema \<Rightarrow> bool" where
  "required_in_properties n \<longleftrightarrow>
     (\<exists>ps. Properties n = Some ps \<and> set (Required n) \<subseteq> fst ` set ps)"

section \<open>Properties\<close>

subsection \<open>Fields after an assignment\<close>

lemma set_Type_sel [simp]:
  "Type (set_Type x s) = x" "Description (set_Type x s) = Description s"
  "Enum (set_Type x s) = Enum s" "Properties (set_Type x s) = Properties s"
  "Items (set_Type x s) = Items s" "Required (set_Type x s) = Required s"
  "AdditionalProperties (set_Type x s) = AdditionalProperties s"
  "boolean (set_Type x s) = boolean s" "Fields (set_Type x s) = Fields s"
  by (cases s; simp)+

lemma set_Description_sel [simp]:
  "Type (set_Description x s) = Type s" "Description (set_Description x s) = x"
  "Enum (set_Description x s) = Enum s" "Properties (set_Description x s) = Properties s"
  "Items (set_Description x s) = Items s" "Required (set_Description x s) = Required s"
  "AdditionalProperties (set_Description x s) = AdditionalProperties s"
  "boolean (set_Description x s) = boolean s" "Fields (set_Description x s) = Fields s"
  by (cases s; simp)+

lemma set_Enum_sel [simp]:
  "Type (set_Enum x s) = Type s" "Description (set_Enum x s) = Description s"
  "Enum (set_Enum x s) = x" "Properties (set_Enum x s) = Properties s"
  "Items (set_Enum x s) = Items s" "Required (set_Enum x s) = Required s"
  "AdditionalProperties (set_Enum x s) = AdditionalProperties s"
  "boolean (set_Enum x s) = boolean s" "Fields (set_Enum x s) = Fields s"
  by (cases s; simp)+

lemma set_Properties_sel [simp]:
  "Type (set_Properties x s) = Type s" "Description (set_Properties x s) = Description s"
  "Enum (set_Properties x s) = Enum s" "Properties (set_Properties x s) = x"
  "Items (set_Properties x s) = Items s" "Required (set_Properties x s) = Required s"
  "AdditionalProperties (set_Properties x s) = AdditionalProperties s"
  "boolean (set_Properties x s) = boolean s" "Fields (set_Properties x s) = Fields s"
  by (cases s; simp)+

lemma set_Items_sel [simp]:
  "Type (set_Items x s) = Type s" "Description (set_Items x s) = Description s"
  "Enum (set_Items x s) = Enum s" "Properties (set_Items x s) = Properties s"
  "Items (set_Items x s) = x" "Required (set_Items x s) = Required s"
  "AdditionalProperties (set_Items x s) = AdditionalProperties s"
  "boolean (set_Items x s) = boolean s" "Fields (set_Items x s) = Fields s"
  by (cases s; simp)+

lemma set_Required_sel [simp]:
  "Type (set_Required x s) = Type s" "Description (set_Required x s) = Description s"
  "Enum (set_Required x s) = Enum s" "Properties (set_Required x s) = Properties s"
  "Items (set_Required x s) = Items s" "Required (set_Required x s) = x"
  "AdditionalProperties (set_Required x s) = AdditionalProperties s"
  "boolean (set_Required x s) = boolean s" "Fields (set_Required x s) = Fields s"
  by (cases s; simp)+

lemma set_AdditionalProperties_sel [simp]:
  "Type (set_AdditionalProperties x s) = Type s"
  "Description (set_AdditionalProperties x s) = Description s"
  "Enum (set_AdditionalProperties x s) = Enum s"
  "Properties (set_AdditionalProperties x s) = Properties s"
  "Items (set_AdditionalProperties x s) = Items s"
  "Required (set_AdditionalProperties x s) = Required s"
  "AdditionalProperties (set_AdditionalProperties x s) = x"
  "boolean (set_AdditionalProperties x s) = boolean s"
  "Fields (set_AdditionalProperties x s) = Fields s"
  by (cases s; simp)+

lemma set_Fields_sel [simp]:
  "Type (set_Fields x s) = Type s" "Description (set_Fields x s) = Description s"
  "Enum (set_Fields x s) = Enum s" "Properties (set_Fields x s) = Properties s"
  "Items (set_Fields x s) = Items s" "Required (set_Fields x s) = Required s"
  "AdditionalProperties (set_Fields x s) = AdditionalProperties s"
  "boolean (set_Fields x s) = boolean s" "Fields (set_Fields x s) = x"
  by (cases s; simp)+

lemma zeroSchema_sel [simp]:
  "Type zeroSchema = []" "Description zeroSchema = []" "Enum zeroSchema = None"
  "Properties zeroSchema = None" "Items zeroSchema = None" "Required zeroSchema = []"
  "AdditionalProperties zeroSchema = None" "boolean zeroSchema = None"
  "Fields zeroSchema = []"
  by (simp_all add: zeroSchema_def)

lemma Properties_Set_sel [simp]:
  "Type (Properties_Set n c s) = Type s" "Description (Properties_Set n c s) = Description s"
  "Enum (Properties_Set n c s) = Enum s"
  "Properties (Properties_Set n c s) = map_option (om_Set n c) (Properties s)"
  "Items (Properties_Set n c s) = Items s" "Required (Properties_Set n c s) = Required s"
  "AdditionalProperties (Properties_Set n c s) = AdditionalProperties s"
  "boolean (Properties_Set n c s) = boolean s" "Fields (Properties_Set n c s) = Fields s"
  by (simp_all add: Properties_Set_def)

subsection \<open>Scalars\<close>

text \<open>
  \<open>TrimSpace\<close> takes white space, and nothing else, from both ends, until no white-space
  rune is left at either end.
\<close>

lemma leadingSpace_TrimLeft: "leadingSpace (TrimLeft s) = None"
proof (induction s rule: TrimLeft.induct)
  case (1 s)
  show ?case
  proof (cases "leadingSpace s")
    case None
    then show ?thesis by (simp add: TrimLeft.simps[of s])
  next
    case (Some n)
    with 1 show ?thesis by (simp add: TrimLeft.simps[of s])
  qed
qed

lemma trailingSpace_TrimRight: "trailingSpace (TrimRight s) = None"
proof (induction s rule: TrimRight.induct)
  case (1 s)
  show ?case
  proof (cases "trailingSpace s")
    case None
    then show ?thesis by (simp add: TrimRight.simps[of s])
  next
    case (Some n)
    with 1 show ?thesis by (simp add: TrimRight.simps[of s])
  qed
qed

lemma prefix_TrimRight: "prefix (TrimRight s) s"
proof (induction s rule: TrimRight.induct)
  case (1 s)
  show ?case
  proof (cases "trailingSpace s")
    case None
    then show ?thesis by (simp add: TrimRight.simps[of s])
  next
    case (Some n)
    with 1 have "prefix (TrimRight s) (take (length s - n) s)"
      by (simp add: TrimRight.simps[of s])
    then show ?thesis
      using prefix_order.trans take_is_prefix by blast
  qed
qed

lemma suffix_TrimLeft: "suffix (TrimLeft s) s"
proof (induction s rule: TrimLeft.induct)
  case (1 s)
  show ?case
  proof (cases "leadingSpace s")
    case None
    then show ?thesis by (simp add: TrimLeft.simps[of s])
  next
    case (Some n)
    with 1 have "suffix (TrimLeft s) (drop n s)"
      by (simp add: TrimLeft.simps[of s])
    then show ?thesis
      using suffix_order.trans suffix_drop by blast
  qed
qed

lemma leadingSpace_prefix:
  assumes "prefix t' t" and "leadingSpace t = None"
  shows "leadingSpace t' = None"
proof -
  from assms(2) have "filter (\<lambda>w. prefix w t) spaceRunes = []"
    by (simp add: leadingSpace_def split: list.splits)
  then have "\<forall>w \<in> set spaceRunes. \<not> prefix w t"
    by (simp add: filter_empty_conv)
  with assms(1) have "\<forall>w \<in> set spaceRunes. \<not> prefix w t'"
    using prefix_order.trans by blast
  then have "filter (\<lambda>w. prefix w t') spaceRunes = []"
    by (simp add: filter_empty_conv)
  then show ?thesis by (simp add: leadingSpace_def)
qed

lemma leadingSpace_Some:
  assumes "leadingSpace s = Some n"
  shows "\<exists>w \<in> set spaceRunes. n = length w \<and> s = w @ drop n s"
proof -
  from assms obtain w ws where f: "filter (\<lambda>w. prefix w s) spaceRunes = w # ws"
    and n: "n = length w"
    unfolding leadingSpace_def by (auto split: list.splits)
  from f have "w \<in> set (filter (\<lambda>w. prefix w s) spaceRunes)" by simp
  then have "w \<in> set spaceRunes" and "prefix w s" by auto
  with n show ?thesis by (auto simp: prefix_def)
qed

lemma trailingSpace_Some:
  assumes "trailingSpace s = Some n"
  shows "\<exists>w \<in> set spaceRunes. n = length w \<and> s = take (length s - n) s @ w"
proof -
  from assms obtain w ws where f: "filter (\<lambda>w. suffix w s) spaceRunes = w # ws"
    and n: "n = length w"
    unfolding trailingSpace_def by (auto split: list.splits)
  from f have "w \<in> set (filter (\<lambda>w. suffix w s) spaceRunes)" by simp
  then have "w \<in> set spaceRunes" and "suffix w s" by auto
  with n show ?thesis by (auto simp: suffix_def)
qed

lemma TrimLeft_whiteSpace: "\<exists>l. whiteSpace l \<and> s = l @ TrimLeft s"
proof (induction s rule: TrimLeft.induct)
  case (1 s)
  show ?case
  proof (cases "leadingSpace s")
    case None
    have "whiteSpace []" by (auto simp: whiteSpace_def intro: exI[of _ "[]"])
    with None show ?thesis by (simp add: TrimLeft.simps[of s])
  next
    case (Some n)
    from leadingSpace_Some[OF Some] obtain w where
      w: "w \<in> set spaceRunes" "s = w @ drop n s" by blast
    from 1[OF Some] obtain ws where
      ws: "set ws \<subseteq> set spaceRunes" "drop n s = concat ws @ TrimLeft (drop n s)"
      by (auto simp: whiteSpace_def)
    have t: "TrimLeft s = TrimLeft (drop n s)"
      using Some by (simp add: TrimLeft.simps[of s])
    from w ws have "set (w # ws) \<subseteq> set spaceRunes" and "s = concat (w # ws) @ TrimLeft s"
      unfolding t by (simp, metis append.assoc concat.simps(2))
    then show ?thesis unfolding whiteSpace_def by blast
  qed
qed

lemma TrimRight_whiteSpace: "\<exists>r. whiteSpace r \<and> s = TrimRight s @ r"
proof (induction s rule: TrimRight.induct)
  case (1 s)
  show ?case
  proof (cases "trailingSpace s")
    case None
    have "whiteSpace []" by (auto simp: whiteSpace_def intro: exI[of _ "[]"])
    with None show ?thesis by (simp add: TrimRight.simps[of s])
  next
    case (Some n)
    let ?s' = "take (length s - n) s"
    from trailingSpace_Some[OF Some] obtain w where
      w: "w \<in> set spaceRunes" "s = ?s' @ w" by blast
    from 1[OF Some] obtain ws where
      ws: "set ws \<subseteq> set spaceRunes" "?s' = TrimRight ?s' @ concat ws"
      by (auto simp: whiteSpace_def)
    have t: "TrimRight s = TrimRight ?s'"
      using Some by (simp add: TrimRight.simps[of s])
    from w ws have "set (ws @ [w]) \<subseteq> set spaceRunes" and "s = TrimRight s @ concat (ws @ [w])"
      unfolding t by (simp, metis append.assoc concat_append concat.simps append_Nil2)
    then show ?thesis unfolding whiteSpace_def by blast
  qed
qed

lemma TrimSpace_trimmed:
  "leadingSpace (TrimSpace s) = None \<and> trailingSpace (TrimSpace s) = None \<and>
   (\<exists>l r. whiteSpace l \<and> whiteSpace r \<and> s = l @ TrimSpace s @ r)"
proof -
  have "leadingSpace (TrimSpace s) = None"
    unfolding TrimSpace_def
    using leadingSpace_prefix[OF prefix_TrimRight leadingSpace_TrimLeft] .
  moreover have "trailingSpace (TrimSpace s) = None"
    unfolding TrimSpace_def by (rule trailingSpace_TrimRight)
  moreover have "\<exists>l r. whiteSpace l \<and> whiteSpace r \<and> s = l @ TrimSpace s @ r"
  proof -
    from TrimLeft_whiteSpace[of s] obtain l where l: "whiteSpace l" "s = l @ TrimLeft s"
      by blast
    from TrimRight_whiteSpace[of "TrimLeft s"] obtain r where
      r: "whiteSpace r" "TrimLeft s = TrimSpace s @ r"
      unfolding TrimSpace_def by blast
    from l r have "s = l @ TrimSpace s @ r" by simp
    with l(1) r(1) show ?thesis by blast
  qed
  ultimately show ?thesis by simp
qed

text \<open>
  Claim C6. For every \<open>t\<close> among \<open>string\<close>, \<open>boolean\<close>, \<open>null\<close>, \<open>number\<close> and \<open>integer\<close>,
  the string \<open>t\<close> translates to the node with type \<open>t\<close> and nothing else, so no
  description; \<open>t\<close>, a comma and a text translate to the same type with the text without
  its leading and trailing white space as the description (what is taken from the two ends
  of the text is white space, and none is left there), so \<open>"t, desc"\<close> has the description
  \<open>desc\<close>; \<open>any\<close> translates to the node with the empty type; and a string whose
  part before the first comma (the whole string when it has no comma) is none of the six
  names is refused with the error of an unsupported scalar type, which names that part.
\<close>

theorem C6_scalar_tokens:
  "(t \<in> {''string'', ''boolean'', ''null'', ''number'', ''integer''} \<longrightarrow>
      ToJSONSchema (DString t) = Returns (Some (Schema t [] None None None [] None None []), None) \<and>
      ToJSONSchema (DString (t @ '','' @ desc)) =
        Returns (Some (Schema t (TrimSpace desc) None None None [] None None []), None) \<and>
      ToJSONSchema (DString (t @ '', desc'')) =
        Returns (Some (Schema t ''desc'' None None None [] None None []), None)) \<and>
   leadingSpace (TrimSpace desc) = None \<and> trailingSpace (TrimSpace desc) = None \<and>
   (\<exists>l r. whiteSpace l \<and> whiteSpace r \<and> desc = l @ TrimSpace desc @ r) \<and>
   ToJSONSchema (DString ''any'') = Returns (Some (Schema [] [] None None None [] None None []), None) \<and>
   (fst (Cut s '','') \<notin> {''string'', ''boolean'', ''null'', ''number'', ''integer'', ''any''} \<longrightarrow>
      ToJSONSchema (DString s) = Returns (None, Some (UnsupportedScalarType (fst (Cut s '','')))))"
proof -
  have trim: "TrimSpace '' desc'' = ''desc''"
    by code_simp
  have tok: "ToJSONSchema (DString t) = Returns (Some (Schema t [] None None None [] None None []), None) \<and>
      ToJSONSchema (DString (t @ '','' @ d)) =
        Returns (Some (Schema t (TrimSpace d) None None None [] None None []), None)"
    if "t \<in> {''string'', ''boolean'', ''null'', ''number'', ''integer''}" for t d
    using that
    by (auto simp: ToJSONSchema_def go_return_def scalarTypes_def zeroSchema_def)
  have any: "ToJSONSchema (DString ''any'') =
      Returns (Some (Schema [] [] None None None [] None None []), None)"
    by (simp add: ToJSONSchema_def go_return_def scalarTypes_def zeroSchema_def)
  have bad: "ToJSONSchema (DString s) = Returns (None, Some (UnsupportedScalarType (fst (Cut s '',''))))"
    if "fst (Cut s '','') \<notin> {''string'', ''boolean'', ''null'', ''number'', ''integer'', ''any''}"
  proof -
    obtain ty d f where "Cut s '','' = (ty, d, f)"
      by (cases "Cut s '',''") auto
    with that show ?thesis
      by (simp add: ToJSONSchema_def go_return_def scalarTypes_def)
  qed
  from tok[of t desc] tok[of t "'' desc''"] trim any bad TrimSpace_trimmed[of desc]
  show ?thesis
    by simp
qed

theorem C6_scalar_tokens_witness:
  "ToJSONSchema (DString ''integer'') =
     Returns (Some (Schema ''integer'' [] None None None [] None None []), None) \<and>
   ToJSONSchema (DString (''integer'' @ '','' @ ''  the age '')) =
     Returns (Some (Schema ''integer'' ''the age'' None None None [] None None []), None) \<and>
   ToJSONSchema (DString ''int, the age'') = Returns (None, Some (UnsupportedScalarType ''int''))"
proof -
  have trim: "TrimSpace ''  the age '' = ''the age''"
    by code_simp
  have cut: "fst (Cut ''int, the age'' '','') = ''int''"
    by simp
  show ?thesis
    using C6_scalar_tokens [of "''integer''" "''  the age ''" "''int, the age''"] trim cut
    by simp
qed

subsection \<open>The entry point\<close>

text \<open>
  When \<^verbatim>\<open>ToJSONSchema\<close> returns, it returns neither a schema nor an error for \<^verbatim>\<open>nil\<close>, and
  for every other value a schema exactly when it returns no error.
\<close>

lemma ToJSONSchema_returns:
  "ToJSONSchema DNil = Returns (None, None) \<and>
   (val \<noteq> DNil \<longrightarrow> ToJSONSchema val = Returns (s, err) \<longrightarrow> (s \<noteq> None) = (err = None))"
  by (auto simp: ToJSONSchema_def go_return_def
      split: dyn.splits outcome.splits sum.splits option.splits if_splits)

text \<open>
  Claim C10: for every value but \<^verbatim>\<open>nil\<close>, \<^verbatim>\<open>ToJSONSchema\<close> returns a schema or an error, and
  not both. The code does not return for a mapping that binds a field of type \<^verbatim>\<open>any\<close>
  (\<open>const\<close>, \<open>default\<close>) to \<^verbatim>\<open>nil\<close>: line 171 calls \<^verbatim>\<open>rf.Set\<close> with the zero \<^verbatim>\<open>reflect.Value\<close>,
  and the call panics.
\<close>

theorem C10_nil_default_panics:
  "DMap [(''type'', DString ''string''), (''default'', DNil)] \<noteq> DNil \<and>
   ToJSONSchema (DMap [(''type'', DString ''string''), (''default'', DNil)]) = Panics"
  by (simp add: ToJSONSchema_def jsonTypes_def mapToJSONSchema_def jsonMap_def)

text \<open>
  Claim C7. A mapping whose key \<open>type\<close> is not bound to one of the seven type names and
  whose key \<open>properties\<close> is bound to a mapping is converted by \<^verbatim>\<open>mapToJSONSchema\<close>: its
  error is the error of the translation, and its schema, with the type set to \<open>object\<close>, is
  the result. So the type of every result is \<open>object\<close>.
\<close>

theorem C7_properties_route:
  assumes "map_of m ''type'' \<notin> set (map (\<lambda>t. Some (DString t)) jsonTypes)"
    and "map_of m ''properties'' = Some (DMap p)"
  shows "ToJSONSchema (DMap m) =
           (case mapToJSONSchema m of
              Panics \<Rightarrow> Panics
            | Returns (Inl err) \<Rightarrow> Returns (None, Some err)
            | Returns (Inr s) \<Rightarrow> Returns (Some (set_Type ''object'' s), None)) \<and>
         (\<forall>r err. ToJSONSchema (DMap m) = Returns (Some r, err) \<longrightarrow> Type r = ''object'')"
  using assms by (auto simp: ToJSONSchema_def split: outcome.splits sum.splits)

theorem C7_properties_route_witness:
  "ToJSONSchema (DMap [(''properties'', DMap [(''name'', DMap [(''type'', DString ''string'')])]),
                       (''title'', DString ''person'')]) =
     Returns (Some (Schema ''object'' [] None
        (Some [(''name'', Schema ''string'' [] None None None [] None None [])])
        None [] None None [(''title'', VString ''person'')]), None) \<and>
   parsePico (DMap [(''properties'', DMap [(''name'', DMap [(''type'', DString ''string'')])]),
                    (''title'', DString ''person'')]) =
     Inl (UnsupportedScalarType ''person'')"
proof -
  let ?m = "[(''properties'', DMap [(''name'', DMap [(''type'', DString ''string'')])]),
             (''title'', DString ''person'')]"
  have a: "map_of ?m ''type'' \<notin> set (map (\<lambda>t. Some (DString t)) jsonTypes)"
    by (simp add: jsonTypes_def)
  have b: "map_of ?m ''properties'' = Some (DMap [(''name'', DMap [(''type'', DString ''string'')])])"
    by simp
  have c: "mapToJSONSchema ?m =
      Returns (Inr (Schema [] [] None
        (Some [(''name'', Schema ''string'' [] None None None [] None None [])])
        None [] None None [(''title'', VString ''person'')]))"
    by (simp add: mapToJSONSchema_def jsonMap_def zeroSchema_def)
  have d: "parsePico (DMap ?m) = Inl (UnsupportedScalarType ''person'')"
    by (simp add: markRequired_def storeProperty_def CutSuffix_def Properties_Set_def
        suffix_def zeroSchema_def scalarTypes_def)
  show ?thesis
    using C7_properties_route [OF a b] c d by simp
qed

subsection \<open>The loop of \<^verbatim>\<open>parsePico\<close>\<close>

text \<open>The two parts of the loop body, by what the loop reads from the key.\<close>

lemma markRequired_eq:
  "markRequired k ret =
     (if isRequired k then set_Required (Required ret @ [propertyName k]) ret else ret)"
  by (simp add: markRequired_def isRequired_def keyName_def propertyName_def isOptional_def
      split: prod.splits)

lemma storeProperty_eq:
  "storeProperty k p ret =
     (case modifier k of
        None \<Rightarrow> Inr (Properties_Set (propertyName k) p ret)
      | Some ty \<Rightarrow>
          if ty = ''array'' then
            Inr (Properties_Set (propertyName k)
                   (describe k (set_Items (Some p) (set_Type ''array'' zeroSchema))) ret)
          else if ty = ''object'' then Inr (Properties_Set (propertyName k) (describe k p) ret)
          else if ty = ''enum'' then
            (case Enum p of
               None \<Rightarrow> Inl (EnumNotArray p)
             | Some vals \<Rightarrow>
                 Inr (Properties_Set (propertyName k)
                        (describe k (if isOptional k then set_Enum (Some (vals @ [DNil])) p else p))
                        ret))
          else if ty = ''*'' then Inr (set_AdditionalProperties (Some p) ret)
          else Inl (ParentheticalNoneOf ty))"
  by (simp add: storeProperty_def modifier_def parenthetical_def describe_def keyName_def
      propertyName_def isOptional_def Let_def split: prod.splits option.splits)

lemma markRequired_sel [simp]:
  "Type (markRequired k s) = Type s" "Description (markRequired k s) = Description s"
  "Enum (markRequired k s) = Enum s" "Properties (markRequired k s) = Properties s"
  "Items (markRequired k s) = Items s"
  "AdditionalProperties (markRequired k s) = AdditionalProperties s"
  "boolean (markRequired k s) = boolean s" "Fields (markRequired k s) = Fields s"
  by (simp_all add: markRequired_eq)

lemma parsePico_range_append:
  "parsePico_range ret (xs @ ys) =
     (case parsePico_range ret xs of Inl err \<Rightarrow> Inl err | Inr r \<Rightarrow> parsePico_range r ys)"
  by (induction xs arbitrary: ret) (auto split: sum.splits)

lemma storeProperty_AdditionalProperties:
  "storeProperty k p ret = Inr ret' \<Longrightarrow> modifier k \<noteq> Some ''*'' \<Longrightarrow>
     AdditionalProperties ret' = AdditionalProperties ret"
  by (auto simp: storeProperty_eq split: option.splits if_splits)

lemma parsePico_range_AdditionalProperties:
  "parsePico_range ret m = Inr r \<Longrightarrow> \<forall>(k, v) \<in> set m. modifier k \<noteq> Some ''*'' \<Longrightarrow>
     AdditionalProperties r = AdditionalProperties ret"
proof (induction m arbitrary: ret)
  case Nil
  then show ?case by simp
next
  case (Cons e m)
  obtain k v where e: "e = (k, v)" by (cases e)
  from Cons.prems(1) e obtain p ret' where
    p: "parsePico v = Inr p" and s: "storeProperty k p (markRequired k ret) = Inr ret'"
    and r: "parsePico_range ret' m = Inr r"
    by (auto split: sum.splits)
  from Cons.prems(2) e have "modifier k \<noteq> Some ''*''" by simp
  from storeProperty_AdditionalProperties[OF s this]
  have "AdditionalProperties ret' = AdditionalProperties ret" by simp
  moreover from Cons.prems(2) have "\<forall>(k, v) \<in> set m. modifier k \<noteq> Some ''*''" by simp
  ultimately show ?case using Cons.IH[OF r] by simp
qed

lemma storeProperty_Properties_only:
  "storeProperty k p ret1 = Inr x1 \<Longrightarrow> Properties ret1 = Properties ret2 \<Longrightarrow>
     \<exists>x2. storeProperty k p ret2 = Inr x2 \<and> Properties x2 = Properties x1"
  by (auto simp: storeProperty_eq split: option.splits if_splits)

lemma parsePico_range_Properties_only:
  "parsePico_range ret1 m = Inr r1 \<Longrightarrow> Properties ret1 = Properties ret2 \<Longrightarrow>
     \<exists>r2. parsePico_range ret2 m = Inr r2 \<and> Properties r2 = Properties r1"
proof (induction m arbitrary: ret1 ret2)
  case Nil
  then show ?case by simp
next
  case (Cons e m)
  obtain k v where e: "e = (k, v)" by (cases e)
  from Cons.prems(1) e obtain p x1 where
    p: "parsePico v = Inr p" and s: "storeProperty k p (markRequired k ret1) = Inr x1"
    and r: "parsePico_range x1 m = Inr r1"
    by (auto split: sum.splits)
  from Cons.prems(2) have "Properties (markRequired k ret1) = Properties (markRequired k ret2)"
    by simp
  from storeProperty_Properties_only[OF s this] obtain x2 where
    x2: "storeProperty k p (markRequired k ret2) = Inr x2" "Properties x2 = Properties x1"
    by blast
  from Cons.IH[OF r x2(2)[symmetric]] obtain r2 where
    "parsePico_range x2 m = Inr r2" "Properties r2 = Properties r1" by blast
  with p x2 e show ?case by simp
qed

lemma parsePico_range_Required:
  "parsePico_range ret m = Inr r \<Longrightarrow>
     Required r = Required ret @ map propertyName (filter isRequired (map fst m))"
proof (induction m arbitrary: ret)
  case Nil
  then show ?case by simp
next
  case (Cons e m)
  obtain k v where e: "e = (k, v)" by (cases e)
  from Cons.prems e obtain p ret' where
    s: "storeProperty k p (markRequired k ret) = Inr ret'"
    and r: "parsePico_range ret' m = Inr r"
    by (auto split: sum.splits)
  from s have "Required ret' = Required (markRequired k ret)"
    by (auto simp: storeProperty_eq split: option.splits if_splits)
  then have "Required ret' = Required ret @ (if isRequired k then [propertyName k] else [])"
    by (simp add: markRequired_eq)
  with Cons.IH[OF r] e show ?case by simp
qed

lemma om_Set_keys:
  "map fst (om_Set k v om) = (if k \<in> set (map fst om) then map fst om else map fst om @ [k])"
proof (induction om)
  case Nil
  show ?case by simp
next
  case (Cons e om)
  obtain k' v' where e: "e = (k', v')" by (cases e)
  show ?case
    using Cons e by (cases "k' = k") simp_all
qed

lemma firstSeen_snoc:
  "firstSeen (xs @ [x]) = (if x \<in> set xs then firstSeen xs else firstSeen xs @ [x])"
  by (simp add: firstSeen_def)

lemma set_firstSeen [simp]: "set (firstSeen xs) = set xs"
  by (simp add: firstSeen_def)

lemma storeProperty_Properties:
  "storeProperty k p ret = Inr ret' \<Longrightarrow> Properties ret = Some om \<Longrightarrow>
     (if modifier k = Some ''*'' then Properties ret' = Some om
      else \<exists>c. Properties ret' = Some (om_Set (propertyName k) c om))"
  by (auto simp: storeProperty_eq split: option.splits if_splits)

lemma parsePico_range_keys:
  "parsePico_range ret m = Inr r \<Longrightarrow> Properties ret = Some om \<Longrightarrow>
   map fst om = firstSeen seen \<Longrightarrow>
     \<exists>om'. Properties r = Some om' \<and>
       map fst om' =
         firstSeen (seen @ map propertyName (filter (\<lambda>k. modifier k \<noteq> Some ''*'') (map fst m)))"
proof (induction m arbitrary: ret om seen)
  case Nil
  then show ?case by simp
next
  case (Cons e m)
  obtain k v where e: "e = (k, v)" by (cases e)
  from Cons.prems(1) e obtain p ret' where
    s: "storeProperty k p (markRequired k ret) = Inr ret'"
    and r: "parsePico_range ret' m = Inr r"
    by (auto split: sum.splits)
  from Cons.prems(2) have om: "Properties (markRequired k ret) = Some om" by simp
  show ?case
  proof (cases "modifier k = Some ''*''")
    case True
    with storeProperty_Properties[OF s om] have "Properties ret' = Some om" by simp
    from Cons.IH[OF r this Cons.prems(3)] True e show ?thesis by simp
  next
    case False
    with storeProperty_Properties[OF s om] obtain c where
      c: "Properties ret' = Some (om_Set (propertyName k) c om)" by auto
    have "map fst (om_Set (propertyName k) c om) = firstSeen (seen @ [propertyName k])"
      using Cons.prems(3) by (simp add: om_Set_keys firstSeen_snoc)
    from Cons.IH[OF r c this] False e show ?thesis by simp
  qed
qed

lemma in_required_names:
  "n \<in> set (map propertyName (filter isRequired ks)) \<Longrightarrow>
     \<exists>k'. k' \<in> set ks \<and> isRequired k' \<and> propertyName k' = n"
  by (induction ks) (auto split: if_splits)

subsection \<open>The wildcard\<close>

text \<open>
  Claim C1, as stated: a mapping with the bare key \<open>*\<close> gets the parsed value as its
  additional-properties policy and no property for the key. The source reads the wildcard
  from the parenthetical only (line 127): the bare key has no parenthesis and is stored as
  the property \<open>*\<close> (line 105), which is also required, and the policy stays
  \<^verbatim>\<open>FalseSchema\<close>.
\<close>

theorem C1_counterexample:
  "parsePico (DString ''string'') = Inr (Schema ''string'' [] None None None [] None None []) \<and>
   ToJSONSchema (DMap [(''*'', DString ''string'')]) =
     Returns (Some (Schema ''object'' [] None
        (Some [(''*'', Schema ''string'' [] None None None [] None None [])])
        None [''*'']
        (Some (Schema [] [] None None None [] None (Some False) [])) None []), None)"
  by (simp add: ToJSONSchema_def go_return_def jsonTypes_def markRequired_def storeProperty_def
      CutSuffix_def Properties_Set_def suffix_def zeroSchema_def FalseSchema_def scalarTypes_def)

text \<open>
  Claim C1, amended. Take a mapping with a key whose parenthetical modifier is \<open>*\<close> (such
  as \<open>(*)\<close>), whose value parses to the node \<open>c\<close>, and let no entry that the loop visits
  later have that modifier. If the mapping is translated, the additional-properties policy
  of the result is \<open>c\<close>, and the entry adds no property: the properties are those of the
  mapping without the entry.
\<close>

theorem C1_wildcard_modifier:
  assumes "modifier k = Some ''*''"
    and "\<forall>(k', v') \<in> set later. modifier k' \<noteq> Some ''*''"
    and "parsePico v = Inr c"
    and "parsePico (DMap (earlier @ (k, v) # later)) = Inr r"
  shows "AdditionalProperties r = Some c \<and>
         (\<exists>r'. parsePico (DMap (earlier @ later)) = Inr r' \<and> Properties r = Properties r')"
proof -
  let ?ret = "set_AdditionalProperties (Some FalseSchema)
                (set_Properties (Some []) (set_Type ''object'' zeroSchema))"
  from assms(4) obtain r1 where
    r1: "parsePico_range ?ret earlier = Inr r1"
    and rest: "parsePico_range r1 ((k, v) # later) = Inr r"
    by (auto simp: parsePico_range_append split: sum.splits)
  let ?r2 = "set_AdditionalProperties (Some c) (markRequired k r1)"
  have store: "storeProperty k c (markRequired k r1) = Inr ?r2"
    using assms(1) by (simp add: storeProperty_eq)
  with rest assms(3) have later: "parsePico_range ?r2 later = Inr r"
    by simp
  from parsePico_range_AdditionalProperties[OF later assms(2)]
  have ap: "AdditionalProperties r = Some c" by simp
  have "Properties ?r2 = Properties r1" by simp
  from parsePico_range_Properties_only[OF later this] obtain r' where
    "parsePico_range r1 later = Inr r'" "Properties r' = Properties r" by blast
  with r1 have "parsePico (DMap (earlier @ later)) = Inr r' \<and> Properties r = Properties r'"
    by (simp add: parsePico_range_append)
  with ap show ?thesis by blast
qed

theorem C1_wildcard_modifier_witness:
  "modifier ''(*)'' = Some ''*'' \<and> modifier ''age?'' \<noteq> Some ''*'' \<and>
   parsePico (DString ''number'') = Inr (Schema ''number'' [] None None None [] None None []) \<and>
   parsePico (DMap [(''name'', DString ''string''), (''(*)'', DString ''number''),
                    (''age?'', DString ''integer'')]) =
     Inr (Schema ''object'' [] None
            (Some [(''name'', Schema ''string'' [] None None None [] None None []),
                   (''age'', Schema ''integer'' [] None None None [] None None [])])
            None [''name'']
            (Some (Schema ''number'' [] None None None [] None None [])) None []) \<and>
   parsePico (DMap [(''name'', DString ''string''), (''age?'', DString ''integer'')]) =
     Inr (Schema ''object'' [] None
            (Some [(''name'', Schema ''string'' [] None None None [] None None []),
                   (''age'', Schema ''integer'' [] None None None [] None None [])])
            None [''name'']
            (Some (Schema [] [] None None None [] None (Some False) [])) None [])"
proof -
  have a: "modifier ''(*)'' = Some ''*''"
    by (simp add: modifier_def parenthetical_def TrimSuffix_def CutSuffix_def suffix_def)
  have b: "\<forall>(k', v') \<in> set [(''age?'', DString ''integer'')]. modifier k' \<noteq> Some ''*''"
    by (simp add: modifier_def parenthetical_def)
  have c: "parsePico (DString ''number'') =
      Inr (Schema ''number'' [] None None None [] None None [])"
    by (simp add: scalarTypes_def zeroSchema_def)
  have d: "parsePico (DMap ([(''name'', DString ''string'')] @ (''(*)'', DString ''number'') #
        [(''age?'', DString ''integer'')])) =
     Inr (Schema ''object'' [] None
            (Some [(''name'', Schema ''string'' [] None None None [] None None []),
                   (''age'', Schema ''integer'' [] None None None [] None None [])])
            None [''name'']
            (Some (Schema ''number'' [] None None None [] None None [])) None [])"
    by (simp add: markRequired_def storeProperty_def TrimSuffix_def CutSuffix_def
        Properties_Set_def suffix_def zeroSchema_def scalarTypes_def)
  have e: "parsePico (DMap [(''name'', DString ''string''), (''age?'', DString ''integer'')]) =
     Inr (Schema ''object'' [] None
            (Some [(''name'', Schema ''string'' [] None None None [] None None []),
                   (''age'', Schema ''integer'' [] None None None [] None None [])])
            None [''name'']
            (Some (Schema [] [] None None None [] None (Some False) [])) None [])"
    by (simp add: markRequired_def storeProperty_def TrimSuffix_def CutSuffix_def
        Properties_Set_def suffix_def zeroSchema_def FalseSchema_def scalarTypes_def)
  show ?thesis
    using C1_wildcard_modifier [OF a b c d] a b c d e by simp
qed

subsection \<open>The order of the properties\<close>

text \<open>
  Claim C2, as stated: the properties come in the authored order of the keys. The input is
  a \<^verbatim>\<open>map[string]any\<close>, which has no authored order, and the loop visits it in the order
  of \<^verbatim>\<open>range\<close>: the mapping of the claim's example is one Go map, and visited from \<open>age?\<close>
  it gives the properties in the order \<open>age\<close>, \<open>name\<close>. (The comment at line 276 says as
  much of the slices: they are not ordered consistently, and \<^verbatim>\<open>ConvertSchema\<close> sorts
  \<^verbatim>\<open>Required\<close> for that reason.)
\<close>

theorem C2_counterexample:
  "same_go_map [(''name'', DString ''string''), (''age?'', DString ''integer'')]
               [(''age?'', DString ''integer''), (''name'', DString ''string'')] \<and>
   parsePico (DMap [(''name'', DString ''string''), (''age?'', DString ''integer'')]) =
     Inr (Schema ''object'' [] None
            (Some [(''name'', Schema ''string'' [] None None None [] None None []),
                   (''age'', Schema ''integer'' [] None None None [] None None [])])
            None [''name'']
            (Some (Schema [] [] None None None [] None (Some False) [])) None []) \<and>
   parsePico (DMap [(''age?'', DString ''integer''), (''name'', DString ''string'')]) =
     Inr (Schema ''object'' [] None
            (Some [(''age'', Schema ''integer'' [] None None None [] None None []),
                   (''name'', Schema ''string'' [] None None None [] None None [])])
            None [''name'']
            (Some (Schema [] [] None None None [] None (Some False) [])) None [])"
  by (auto simp: same_go_map_def markRequired_def storeProperty_def TrimSuffix_def CutSuffix_def
      Properties_Set_def suffix_def zeroSchema_def FalseSchema_def scalarTypes_def)

text \<open>
  Claim C2, amended. The properties of the resulting object come in the order in which
  the loop visits the keys: the property names of the keys without the modifier \<open>*\<close>, each
  at its first visit. \<^verbatim>\<open>Required\<close> holds the property names of the keys with a name that is
  neither empty nor optional, in the order of the visits, once for every such key. When
  the loop visits \<open>name\<close> before \<open>age?\<close>, \<^verbatim>\<open>Required\<close> is \<open>[name]\<close> and the properties are
  \<open>name\<close>, \<open>age\<close>.
\<close>

theorem C2_visiting_order:
  assumes "parsePico (DMap m) = Inr r"
  shows "map_option (map fst) (Properties r) =
           Some (firstSeen (map propertyName
                   (filter (\<lambda>k. modifier k \<noteq> Some ''*'') (map fst m)))) \<and>
         Required r = map propertyName (filter isRequired (map fst m))"
proof -
  let ?ret = "set_AdditionalProperties (Some FalseSchema)
                (set_Properties (Some []) (set_Type ''object'' zeroSchema))"
  from assms have r: "parsePico_range ?ret m = Inr r" by simp
  have "Properties ?ret = Some []" and "map fst ([] :: (string \<times> schema) list) = firstSeen []"
    by (simp_all add: firstSeen_def)
  from parsePico_range_keys[OF r this] parsePico_range_Required[OF r]
  show ?thesis by auto
qed

theorem C2_visiting_order_witness:
  "parsePico (DMap [(''name'', DString ''string''), (''age?'', DString ''integer'')]) =
     Inr (Schema ''object'' [] None
            (Some [(''name'', Schema ''string'' [] None None None [] None None []),
                   (''age'', Schema ''integer'' [] None None None [] None None [])])
            None [''name'']
            (Some (Schema [] [] None None None [] None (Some False) [])) None []) \<and>
   firstSeen (map propertyName (filter (\<lambda>k. modifier k \<noteq> Some ''*'') [''name'', ''age?''])) =
     [''name'', ''age''] \<and>
   map propertyName (filter isRequired [''name'', ''age?'']) = [''name'']"
proof -
  have e: "parsePico (DMap [(''name'', DString ''string''), (''age?'', DString ''integer'')]) =
     Inr (Schema ''object'' [] None
            (Some [(''name'', Schema ''string'' [] None None None [] None None []),
                   (''age'', Schema ''integer'' [] None None None [] None None [])])
            None [''name'']
            (Some (Schema [] [] None None None [] None (Some False) [])) None [])"
    by (simp add: markRequired_def storeProperty_def TrimSuffix_def CutSuffix_def
        Properties_Set_def suffix_def zeroSchema_def FalseSchema_def scalarTypes_def)
  show ?thesis
    using C2_visiting_order [OF e] e by simp
qed

subsection \<open>Enumerations\<close>

text \<open>
  Claim C5. Take an entry whose key has the parenthetical modifier \<open>enum\<close> and whose value
  parses to the node \<open>child\<close>. If \<open>child\<close> has no \<^verbatim>\<open>Enum\<close>, the loop ends at this entry with
  the error that the enum value is not an array, and so does the translation of a mapping
  with this entry, unless an entry visited earlier has ended it with an error of its own.
  If \<open>child\<close> has an \<^verbatim>\<open>Enum\<close> and the name is optional, the entry appends nothing to
  \<^verbatim>\<open>Required\<close>, and the loop goes on with the property set to \<open>child\<close> with \<^verbatim>\<open>nil\<close> appended
  to its \<^verbatim>\<open>Enum\<close>; the property name is then not in \<^verbatim>\<open>Required\<close> of the result, when no
  other key of the mapping has the same property name.
\<close>

theorem C5_enum_modifier:
  assumes "modifier k = Some ''enum''" and "parsePico v = Inr child"
  shows "(Enum child = None \<longrightarrow>
            parsePico_range ret ((k, v) # later) = Inl (EnumNotArray child) \<and>
            parsePico (DMap (earlier @ (k, v) # later)) =
              (case parsePico (DMap earlier) of
                 Inl err \<Rightarrow> Inl err
               | Inr r \<Rightarrow> Inl (EnumNotArray child))) \<and>
         (\<forall>vals. Enum child = Some vals \<and> isOptional k \<longrightarrow>
            markRequired k ret = ret \<and>
            Enum (describe k (set_Enum (Some (vals @ [DNil])) child)) = Some (vals @ [DNil]) \<and>
            parsePico_range ret ((k, v) # later) =
              parsePico_range
                (Properties_Set (propertyName k)
                   (describe k (set_Enum (Some (vals @ [DNil])) child)) ret)
                later \<and>
            (\<forall>r. parsePico (DMap (earlier @ (k, v) # later)) = Inr r \<and>
                 (\<forall>(k', v') \<in> set (earlier @ later). propertyName k' \<noteq> propertyName k) \<longrightarrow>
                 propertyName k \<notin> set (Required r)))"
proof -
  have none: "parsePico_range ret' ((k, v) # later) = Inl (EnumNotArray child)"
    if "Enum child = None" for ret'
    using that assms by (simp add: storeProperty_eq)
  have whole: "parsePico (DMap (earlier @ (k, v) # later)) =
      (case parsePico (DMap earlier) of Inl err \<Rightarrow> Inl err | Inr r \<Rightarrow> Inl (EnumNotArray child))"
    if "Enum child = None"
    using none[OF that] by (simp add: parsePico_range_append split: sum.splits)
  have descr: "Enum (describe k c) = Enum c" for c
    by (simp add: describe_def split: option.splits prod.splits)
  have opt: "markRequired k ret = ret \<and>
      parsePico_range ret ((k, v) # later) =
        parsePico_range
          (Properties_Set (propertyName k)
             (describe k (set_Enum (Some (vals @ [DNil])) child)) ret) later"
    if "Enum child = Some vals" "isOptional k" for vals
    using that assms by (simp add: storeProperty_eq markRequired_eq isRequired_def)
  have req: "propertyName k \<notin> set (Required r)"
    if "isOptional k" "parsePico (DMap (earlier @ (k, v) # later)) = Inr r"
      "\<forall>(k', v') \<in> set (earlier @ later). propertyName k' \<noteq> propertyName k" for r
  proof -
    from that(2) have req: "Required r =
        map propertyName (filter isRequired (map fst (earlier @ (k, v) # later)))"
      using parsePico_range_Required by force
    show ?thesis
    proof
      assume "propertyName k \<in> set (Required r)"
      then have "propertyName k \<in>
          set (map propertyName (filter isRequired (map fst (earlier @ (k, v) # later))))"
        by (simp only: req)
      from in_required_names[OF this] obtain k' where
        k': "k' \<in> set (map fst (earlier @ (k, v) # later))"
        "isRequired k'" "propertyName k' = propertyName k"
        by blast
      from k'(2) \<open>isOptional k\<close> have "k' \<noteq> k"
        by (auto simp: isRequired_def)
      with k'(1) have "k' \<in> fst ` set (earlier @ later)"
        by auto
      then obtain v' where "(k', v') \<in> set (earlier @ later)"
        by fastforce
      with that(3) have "propertyName k' \<noteq> propertyName k"
        by blast
      with k'(3) show False by simp
    qed
  qed
  from none whole descr opt req show ?thesis
    by (metis set_Enum_sel(3))
qed

theorem C5_enum_modifier_witness:
  "modifier ''color?(enum)'' = Some ''enum'' \<and> isOptional ''color?(enum)'' \<and>
   propertyName ''color?(enum)'' = ''color'' \<and>
   parsePico (DMap [(''color?(enum)'', DSlice [DString ''red'', DString ''green''])]) =
     Inr (Schema ''object'' [] None
            (Some [(''color'',
               Schema [] [] (Some [DString ''red'', DString ''green'', DNil])
                 None None [] None None [])])
            None []
            (Some (Schema [] [] None None None [] None (Some False) [])) None []) \<and>
   modifier ''color(enum)'' = Some ''enum'' \<and>
   parsePico (DMap [(''color(enum)'', DString ''string'')]) =
     Inl (EnumNotArray (Schema ''string'' [] None None None [] None None []))"
proof -
  let ?ret = "set_AdditionalProperties (Some FalseSchema)
                (set_Properties (Some []) (set_Type ''object'' zeroSchema))"
  have a: "modifier ''color?(enum)'' = Some ''enum''"
    by (simp add: modifier_def parenthetical_def TrimSuffix_def CutSuffix_def suffix_def)
  have b: "parsePico (DSlice [DString ''red'', DString ''green'']) =
      Inr (set_Enum (Some [DString ''red'', DString ''green'']) zeroSchema)"
    by simp
  have c: "isOptional ''color?(enum)'' \<and> propertyName ''color?(enum)'' = ''color''"
    by (simp add: isOptional_def propertyName_def keyName_def CutSuffix_def suffix_def)
  have e: "modifier ''color(enum)'' = Some ''enum''"
    by (simp add: modifier_def parenthetical_def TrimSuffix_def CutSuffix_def suffix_def)
  have f: "parsePico (DString ''string'') =
      Inr (Schema ''string'' [] None None None [] None None [])"
    by (simp add: scalarTypes_def zeroSchema_def)
  have g: "parsePico (DMap [(''color?(enum)'', DSlice [DString ''red'', DString ''green''])]) =
     Inr (Schema ''object'' [] None
            (Some [(''color'',
               Schema [] [] (Some [DString ''red'', DString ''green'', DNil])
                 None None [] None None [])])
            None []
            (Some (Schema [] [] None None None [] None (Some False) [])) None [])"
    by (simp add: markRequired_def storeProperty_def TrimSuffix_def CutSuffix_def
        Properties_Set_def suffix_def zeroSchema_def FalseSchema_def)
  have h: "parsePico (DMap [(''color(enum)'', DString ''string'')]) =
     Inl (EnumNotArray (Schema ''string'' [] None None None [] None None []))"
    by (simp add: markRequired_def storeProperty_def TrimSuffix_def CutSuffix_def
        Properties_Set_def suffix_def zeroSchema_def FalseSchema_def scalarTypes_def)
  show ?thesis
    using C5_enum_modifier [OF a b, of ?ret "[]" "[]"] C5_enum_modifier [OF e f, of ?ret "[]" "[]"]
      a c e g h
    by simp
qed

subsection \<open>Unsigned fields\<close>

text \<open>
  Claim C4, as stated: a field of an unsigned integer type bound to a number is converted
  exactly when the number is a whole number that is not negative, and a negative number is
  a type mismatch. The switch of line 182 is on the Go type of the value alone: the value
  \<open>-1\<close> of type \<^verbatim>\<open>int\<close> is converted with no error (to \<open>2^64 - 1\<close>), and the whole number \<open>3\<close>
  of a floating-point type is refused.
\<close>

theorem C4_counterexample:
  "sint (- 1 :: 64 word) = - 1 \<and>
   mapToJSONSchema [(''minLength'', DInt (- 1))] =
     Returns (Inr (Schema [] [] None None None [] None None
            [(''minLength'', VUint64 18446744073709551615)])) \<and>
   mapToJSONSchema [(''minLength'', DFloat 3 0)] =
     Returns (Inl (FoundTypeWantInteger (DFloat 3 0) ''minLength''))"
  by (simp add: mapToJSONSchema_def jsonMap_def zeroSchema_def)

text \<open>
  Claim C4, amended. In the loop of \<^verbatim>\<open>mapToJSONSchema\<close>, a field of type \<^verbatim>\<open>*uint64\<close> bound
  to a number is converted exactly when the number has an integer type, signed or
  unsigned: an unsigned value is stored as it is, a signed value is stored modulo \<open>2^64\<close>
  (a negative value is no error), and the loop goes on; a floating-point number ends the
  conversion with the type-mismatch error, whatever its value.
\<close>

theorem C4_integer_types:
  assumes "map_of jsonMap k = Some TUint64Ptr"
  shows "mapToJSONSchema_range ret ((k, DUint u) # rest) =
           mapToJSONSchema_range (rf_Set k (VUint64 u) ret) rest \<and>
         mapToJSONSchema_range ret ((k, DInt i) # rest) =
           mapToJSONSchema_range (rf_Set k (VUint64 (word_of_int (sint i))) ret) rest \<and>
         uint (word_of_int (sint i) :: 64 word) = sint i mod 2 ^ 64 \<and>
         mapToJSONSchema_range ret ((k, DFloat m e) # rest) =
           Returns (Inl (FoundTypeWantInteger (DFloat m e) k))"
  using assms by (simp add: uint_sint take_bit_eq_mod)

theorem C4_integer_types_witness:
  "mapToJSONSchema_range zeroSchema [(''minLength'', DUint 3)] =
     Returns (Inr (Schema [] [] None None None [] None None [(''minLength'', VUint64 3)])) \<and>
   mapToJSONSchema_range zeroSchema [(''minLength'', DInt (- 1))] =
     Returns (Inr (Schema [] [] None None None [] None None
            [(''minLength'', VUint64 18446744073709551615)])) \<and>
   sint (- 1 :: 64 word) mod 2 ^ 64 = 18446744073709551615 \<and>
   mapToJSONSchema_range zeroSchema [(''minLength'', DFloat 3 0)] =
     Returns (Inl (FoundTypeWantInteger (DFloat 3 0) ''minLength''))"
proof -
  have a: "map_of jsonMap ''minLength'' = Some TUint64Ptr"
    by (simp add: jsonMap_def)
  show ?thesis
    using C4_integer_types [OF a, of zeroSchema 3 "[]" "- 1" 3 0]
    by (simp add: zeroSchema_def)
qed

subsection \<open>The canonical form\<close>

lemma sortSchemaSlices_idem: "sortSchemaSlices (sortSchemaSlices s) = sortSchemaSlices s"
proof (induction s rule: sortSchemaSlices.induct)
  case (1 t d e p i r a b f)
  have props: "map_option (map (\<lambda>(name, c). (name, sortSchemaSlices c)))
          (map_option (map (\<lambda>(name, c). (name, sortSchemaSlices c))) p) =
        map_option (map (\<lambda>(name, c). (name, sortSchemaSlices c))) p"
  proof (cases p)
    case None
    then show ?thesis by simp
  next
    case (Some ps)
    have "map (\<lambda>(name, c). (name, sortSchemaSlices c))
            (map (\<lambda>(name, c). (name, sortSchemaSlices c)) ps) =
          map (\<lambda>(name, c). (name, sortSchemaSlices c)) ps"
      using "1.IH"(1)[OF Some] by (auto simp: case_prod_beta)
    with Some show ?thesis by simp
  qed
  have items: "map_option sortSchemaSlices (map_option sortSchemaSlices i) =
      map_option sortSchemaSlices i"
    using "1.IH"(2) by (cases i) auto
  show ?case
    using props items by (simp add: sorted_sort_id)
qed

lemma sortSchemaSlices_sorted:
  "n \<in> set (sorted_nodes (sortSchemaSlices s)) \<Longrightarrow> sorted (Required n)"
proof (induction s arbitrary: n rule: sortSchemaSlices.induct)
  case (1 t d e p i r a b f)
  from "1.prems" consider
      (self) "n = sortSchemaSlices (Schema t d e p i r a b f)"
    | (child) ps name c where "p = Some ps" "(name, c) \<in> set ps"
        "n \<in> set (sorted_nodes (sortSchemaSlices c))"
    | (item) c where "i = Some c" "n \<in> set (sorted_nodes (sortSchemaSlices c))"
    by (cases p; cases i) (auto split: prod.splits)
  then show ?case
  proof cases
    case self
    then show ?thesis by simp
  next
    case child
    then show ?thesis using "1.IH"(1) by blast
  next
    case item
    then show ?thesis using "1.IH"(2) by blast
  qed
qed

text \<open>
  Claim C9. Sorting a sorted schema changes nothing; \<^verbatim>\<open>ConvertSchema\<close>, called again on
  the schema that its first call has left, leaves the same schema and returns the same
  result, whatever \<^verbatim>\<open>json.Marshal\<close> and \<^verbatim>\<open>json.Unmarshal\<close> compute; and at every node of
  a sorted schema that is reached through \<^verbatim>\<open>Properties\<close> and \<^verbatim>\<open>Items\<close>, sorting \<^verbatim>\<open>Required\<close>
  gives \<^verbatim>\<open>Required\<close>.
\<close>

theorem C9_canonical_idempotent:
  "sortSchemaSlices (sortSchemaSlices s) = sortSchemaSlices s \<and>
   ConvertSchema Marshal Unmarshal (fst (ConvertSchema Marshal Unmarshal s)) =
     ConvertSchema Marshal Unmarshal s \<and>
   (\<forall>n \<in> set (sorted_nodes (sortSchemaSlices s)). sort (Required n) = Required n)"
  using sortSchemaSlices_idem [of s] sortSchemaSlices_sorted [of _ s]
  by (auto simp: ConvertSchema_def Let_def sorted_sort_id)

theorem C9_canonical_idempotent_witness:
  "sortSchemaSlices
     (Schema ''object'' [] None
        (Some [(''p'', Schema ''object'' [] None None None [''z'', ''y''] None None [])])
        (Some (Schema [] [] None None None [''d'', ''c''] None None []))
        [''b'', ''a''] None None []) =
   Schema ''object'' [] None
        (Some [(''p'', Schema ''object'' [] None None None [''y'', ''z''] None None [])])
        (Some (Schema [] [] None None None [''c'', ''d''] None None []))
        [''a'', ''b''] None None [] \<and>
   sorted_nodes
     (Schema ''object'' [] None
        (Some [(''p'', Schema ''object'' [] None None None [''y'', ''z''] None None [])])
        (Some (Schema [] [] None None None [''c'', ''d''] None None []))
        [''a'', ''b''] None None []) =
     [Schema ''object'' [] None
        (Some [(''p'', Schema ''object'' [] None None None [''y'', ''z''] None None [])])
        (Some (Schema [] [] None None None [''c'', ''d''] None None []))
        [''a'', ''b''] None None [],
      Schema ''object'' [] None None None [''y'', ''z''] None None [],
      Schema [] [] None None None [''c'', ''d''] None None []] \<and>
   sort [''a'', ''b''] = [''a'', ''b''] \<and> sort [''y'', ''z''] = [''y'', ''z''] \<and>
   sort [''c'', ''d''] = [''c'', ''d'']"
proof -
  let ?s = "Schema ''object'' [] None
        (Some [(''p'', Schema ''object'' [] None None None [''z'', ''y''] None None [])])
        (Some (Schema [] [] None None None [''d'', ''c''] None None []))
        [''b'', ''a''] None None []"
  let ?s' = "Schema ''object'' [] None
        (Some [(''p'', Schema ''object'' [] None None None [''y'', ''z''] None None [])])
        (Some (Schema [] [] None None None [''c'', ''d''] None None []))
        [''a'', ''b''] None None []"
  have a: "sortSchemaSlices ?s = ?s'"
    by code_simp
  have b: "sorted_nodes ?s' =
     [?s', Schema ''object'' [] None None None [''y'', ''z''] None None [],
      Schema [] [] None None None [''c'', ''d''] None None []]"
    by simp
  show ?thesis
    using C9_canonical_idempotent [of ?s "\<lambda>s. Inr (Type s) :: unit + string" "\<lambda>d. Inr (DString d)"]
    unfolding a b by simp
qed

subsection \<open>Every node of a result\<close>

lemma set_nodes:
  "set (nodes (Schema t d e p i r a b f)) =
     insert (Schema t d e p i r a b f)
       ((\<Union>x \<in> (case p of None \<Rightarrow> {} | Some ps \<Rightarrow> set ps). set (nodes (snd x))) \<union>
        (case i of None \<Rightarrow> {} | Some c \<Rightarrow> set (nodes c)) \<union>
        (case a of None \<Rightarrow> {} | Some c \<Rightarrow> set (nodes c)) \<union>
        (\<Union>x \<in> set f. set (fieldval_nodes (snd x))))"
  by (cases p; cases i; cases a) (simp_all add: case_prod_beta Un_assoc)

lemma all_nodes_Schema:
  "all_nodes P (Schema t d e p i r a b f) \<longleftrightarrow>
     P (Schema t d e p i r a b f) \<and>
     (\<forall>ps. p = Some ps \<longrightarrow> (\<forall>x \<in> set ps. all_nodes P (snd x))) \<and>
     (\<forall>c. i = Some c \<longrightarrow> all_nodes P c) \<and>
     (\<forall>c. a = Some c \<longrightarrow> all_nodes P c) \<and>
     (\<forall>x \<in> set f. \<forall>n \<in> set (fieldval_nodes (snd x)). P n)"
  unfolding all_nodes_def set_nodes
  by (cases p; cases i; cases a) (auto simp: ball_Un)

lemma all_nodes_iff:
  "all_nodes P s \<longleftrightarrow>
     P s \<and>
     (\<forall>ps. Properties s = Some ps \<longrightarrow> (\<forall>x \<in> set ps. all_nodes P (snd x))) \<and>
     (\<forall>c. Items s = Some c \<longrightarrow> all_nodes P c) \<and>
     (\<forall>c. AdditionalProperties s = Some c \<longrightarrow> all_nodes P c) \<and>
     (\<forall>x \<in> set (Fields s). \<forall>n \<in> set (fieldval_nodes (snd x)). P n)"
  by (cases s) (simp only: all_nodes_Schema schema.sel)

lemma set_om_Set: "set (om_Set k v om) \<subseteq> insert (k, v) (set om)"
  by (induction om) (auto split: if_splits)

lemma keys_om_Set: "fst ` set (om_Set k v om) = insert k (fst ` set om)"
proof -
  have "set (map fst (om_Set k v om)) = insert k (set (map fst om))"
    unfolding om_Set_keys by (auto simp del: set_map)
  then show ?thesis by (simp only: set_map)
qed


lemma describe_sel [simp]:
  "Type (describe k s) = Type s" "Enum (describe k s) = Enum s"
  "Properties (describe k s) = Properties s" "Items (describe k s) = Items s"
  "Required (describe k s) = Required s"
  "AdditionalProperties (describe k s) = AdditionalProperties s"
  "boolean (describe k s) = boolean s" "Fields (describe k s) = Fields s"
  by (simp_all add: describe_def split: option.splits prod.splits)

lemma all_nodes_same_children:
  assumes "all_nodes P s" and "P s'"
    and "Properties s' = Properties s" and "Items s' = Items s"
    and "AdditionalProperties s' = AdditionalProperties s" and "Fields s' = Fields s"
  shows "all_nodes P s'"
  using assms by (simp add: all_nodes_iff[of P s] all_nodes_iff[of P s'])

lemma all_nodes_Properties_Set:
  assumes "P (Properties_Set n c s)" and "all_nodes P c"
    and "\<forall>ps. Properties s = Some ps \<longrightarrow> (\<forall>x \<in> set ps. all_nodes P (snd x))"
    and "\<forall>c. Items s = Some c \<longrightarrow> all_nodes P c"
    and "\<forall>c. AdditionalProperties s = Some c \<longrightarrow> all_nodes P c"
    and "\<forall>x \<in> set (Fields s). \<forall>n \<in> set (fieldval_nodes (snd x)). P n"
  shows "all_nodes P (Properties_Set n c s)"
proof -
  have "all_nodes P (snd x)" if "Properties s = Some ps" "x \<in> set (om_Set n c ps)" for ps x
  proof -
    from that(2) set_om_Set[of n c ps] have "x = (n, c) \<or> x \<in> set ps" by auto
    with assms(2,3) that(1) show ?thesis by auto
  qed
  with assms(1,4,5,6) show ?thesis
    by (subst all_nodes_iff) auto
qed

lemma all_nodes_mono: "(\<And>n. P n \<Longrightarrow> Q n) \<Longrightarrow> all_nodes P s \<Longrightarrow> all_nodes Q s"
  by (simp add: all_nodes_def)

lemma Enum_rf_Set [simp]: "Enum (rf_Set k fv s) = Enum s"
  by (cases fv) simp_all

lemma all_nodes_rf_Set:
  assumes "all_nodes P s" and "P (rf_Set k fv s)" and "\<forall>n \<in> set (fieldval_nodes fv). P n"
  shows "all_nodes P (rf_Set k fv s)"
proof -
  from assms(1) have kids:
    "\<forall>ps. Properties s = Some ps \<longrightarrow> (\<forall>x \<in> set ps. all_nodes P (snd x))"
    "\<forall>c. Items s = Some c \<longrightarrow> all_nodes P c"
    "\<forall>c. AdditionalProperties s = Some c \<longrightarrow> all_nodes P c"
    "\<forall>x \<in> set (Fields s). \<forall>n \<in> set (fieldval_nodes (snd x)). P n"
    by (simp_all add: all_nodes_iff[of P s])
  have fields: "\<forall>x \<in> set (om_Set k fv (Fields s)). \<forall>n \<in> set (fieldval_nodes (snd x)). P n"
  proof
    fix x
    assume "x \<in> set (om_Set k fv (Fields s))"
    with set_om_Set[of k fv "Fields s"] have "x = (k, fv) \<or> x \<in> set (Fields s)" by auto
    with assms(3) kids(4) show "\<forall>n \<in> set (fieldval_nodes (snd x)). P n" by auto
  qed
  show ?thesis
  proof (cases fv)
    case (VSchema c)
    with assms(3) have "all_nodes P c" by (simp add: all_nodes_def)
    with assms(2) kids fields VSchema show ?thesis
      by (subst all_nodes_iff) (auto split: if_splits)
  next
    case (VProperties ps)
    with assms(3) have "\<forall>x \<in> set ps. all_nodes P (snd x)"
      by (simp add: all_nodes_def case_prod_beta)
    with assms(2) kids fields VProperties show ?thesis
      by (subst all_nodes_iff) (auto split: if_splits)
  next
    case (VString x)
    with assms(2) kids fields show ?thesis
      by (subst all_nodes_iff) (auto split: if_splits)
  next
    case (VStrings xs)
    with assms(2) kids fields show ?thesis
      by (subst all_nodes_iff) (auto split: if_splits)
  next
    case (VAny x)
    with assms(2) kids fields show ?thesis
      by (subst all_nodes_iff) auto
  next
    case (VUint64 x)
    with assms(2) kids fields show ?thesis
      by (subst all_nodes_iff) auto
  next
    case (VBool x)
    with assms(2) kids fields show ?thesis
      by (subst all_nodes_iff) auto
  next
    case (VSchemas x)
    with assms(2) kids fields show ?thesis
      by (subst all_nodes_iff) auto
  qed
qed

lemma convertField_nodes: "convertField ty k v = Returns (Inr fv) \<Longrightarrow> fieldval_nodes fv = []"
  by (cases ty; cases v) (auto split: sum.splits if_splits)

lemma mapToJSONSchema_range_ConsE:
  assumes "mapToJSONSchema_range ret ((k, v) # rest) = Returns (Inr r)"
  obtains
    (ptr) m c where "map_of jsonMap k = Some TSchemaPtr" "v = DMap m"
      "mapToJSONSchema_range zeroSchema m = Returns (Inr c)"
      "mapToJSONSchema_range (rf_Set k (VSchema c) ret) rest = Returns (Inr r)"
  | (slice) s cs where "map_of jsonMap k = Some TSchemaSlice" "v = DMapSlice s"
      "mapToJSONSchema_slice k [] s = Returns (Inr cs)"
      "mapToJSONSchema_range (rf_Set k (VSchemas cs) ret) rest = Returns (Inr r)"
  | (om) m ps where "map_of jsonMap k = Some TOrderedMap" "v = DMap m"
      "mapToJSONSchema_om k [] m = Returns (Inr ps)"
      "mapToJSONSchema_range (rf_Set k (VProperties ps) ret) rest = Returns (Inr r)"
  | (scalar) ty fv where "map_of jsonMap k = Some ty" "ty \<noteq> TSchemaPtr" "ty \<noteq> TSchemaSlice"
      "ty \<noteq> TOrderedMap" "convertField ty k v = Returns (Inr fv)"
      "mapToJSONSchema_range (rf_Set k fv ret) rest = Returns (Inr r)"
  using assms by (auto split: option.splits outcome.splits sum.splits if_splits dyn.splits)

subsection \<open>Required names and properties\<close>

text \<open>
  Each step of the loop of \<^verbatim>\<open>parsePico\<close> keeps the names of \<^verbatim>\<open>Required\<close> among the keys of
  \<^verbatim>\<open>Properties\<close>, when a key with the modifier \<open>*\<close> appends no name.
\<close>

lemma storeProperty_required_in_properties:
  assumes ret: "all_nodes (\<lambda>n. Type n = ''object'' \<longrightarrow> required_in_properties n) ret"
      "Type ret = ''object''"
    and p: "all_nodes (\<lambda>n. Type n = ''object'' \<longrightarrow> required_in_properties n) p"
    and k: "modifier k = Some ''*'' \<longrightarrow> \<not> isRequired k"
    and s: "storeProperty k p (markRequired k ret) = Inr ret'"
  shows "all_nodes (\<lambda>n. Type n = ''object'' \<longrightarrow> required_in_properties n) ret' \<and>
         Type ret' = ''object''"
proof -
  let ?P = "\<lambda>n. Type n = ''object'' \<longrightarrow> required_in_properties n"
  let ?ret0 = "markRequired k ret"
  from ret(1) have "?P ret"
    by (subst (asm) all_nodes_iff) simp
  with ret(2) have "required_in_properties ret" by simp
  then obtain ps where ps: "Properties ret = Some ps" "set (Required ret) \<subseteq> fst ` set ps"
    by (auto simp: required_in_properties_def)
  from ret(1) have kids:
    "\<forall>ps. Properties ?ret0 = Some ps \<longrightarrow> (\<forall>x \<in> set ps. all_nodes ?P (snd x))"
    "\<forall>c. Items ?ret0 = Some c \<longrightarrow> all_nodes ?P c"
    "\<forall>c. AdditionalProperties ?ret0 = Some c \<longrightarrow> all_nodes ?P c"
    "\<forall>x \<in> set (Fields ?ret0). \<forall>n \<in> set (fieldval_nodes (snd x)). ?P n"
    by (simp_all add: all_nodes_iff[of ?P ret])
  have req0: "set (Required ?ret0) \<subseteq> insert (propertyName k) (fst ` set ps)"
    using ps(2) by (auto simp: markRequired_eq)
  have stored: "all_nodes ?P (Properties_Set (propertyName k) c ?ret0) \<and>
      Type (Properties_Set (propertyName k) c ?ret0) = ''object''"
    if "all_nodes ?P c" for c
  proof -
    have "?P (Properties_Set (propertyName k) c ?ret0)"
      using req0 ps(1) by (simp add: required_in_properties_def keys_om_Set)
    from all_nodes_Properties_Set[of ?P, OF this that kids] ret(2) show ?thesis by simp
  qed
  have d: "all_nodes ?P (describe k c)" if "all_nodes ?P c" for c
  proof -
    from that have "?P c" by (subst (asm) all_nodes_iff) simp
    then have "?P (describe k c)" by (simp add: required_in_properties_def)
    from all_nodes_same_children[of ?P, OF that this] show ?thesis by simp
  qed
  have e: "all_nodes ?P (set_Enum e c)" if "all_nodes ?P c" for c e
  proof -
    from that have "?P c" by (subst (asm) all_nodes_iff) simp
    then have "?P (set_Enum e c)" by (simp add: required_in_properties_def)
    from all_nodes_same_children[of ?P, OF that this] show ?thesis by simp
  qed
  have arr: "all_nodes ?P (set_Items (Some p) (set_Type ''array'' zeroSchema))"
    using p by (subst all_nodes_iff) simp
  show ?thesis
  proof (cases "modifier k")
    case None
    with s have "ret' = Properties_Set (propertyName k) p ?ret0"
      by (simp add: storeProperty_eq)
    with stored[OF p] show ?thesis by simp
  next
    case (Some ty)
    consider (array) "ty = ''array''" | (object) "ty = ''object''" | (enum) "ty = ''enum''"
      | (wild) "ty = ''*''" | (other) "ty \<notin> {''array'', ''object'', ''enum'', ''*''}"
      by auto
    then show ?thesis
    proof cases
      case array
      with s Some have "ret' = Properties_Set (propertyName k)
          (describe k (set_Items (Some p) (set_Type ''array'' zeroSchema))) ?ret0"
        by (simp add: storeProperty_eq)
      with stored[OF d[OF arr]] show ?thesis by simp
    next
      case object
      with s Some have "ret' = Properties_Set (propertyName k) (describe k p) ?ret0"
        by (simp add: storeProperty_eq)
      with stored[OF d[OF p]] show ?thesis by simp
    next
      case enum
      with s Some obtain vals where "Enum p = Some vals"
        and "ret' = Properties_Set (propertyName k)
          (describe k (if isOptional k then set_Enum (Some (vals @ [DNil])) p else p)) ?ret0"
        by (auto simp: storeProperty_eq split: option.splits)
      with stored[OF d[OF e[OF p]]] stored[OF d[OF p]] show ?thesis
        by (cases "isOptional k") simp_all
    next
      case wild
      with s Some have r: "ret' = set_AdditionalProperties (Some p) ?ret0"
        by (simp add: storeProperty_eq)
      from wild Some k have eq: "?ret0 = ret" by (simp add: markRequired_eq)
      with r have r': "ret' = set_AdditionalProperties (Some p) ret" by simp
      have "?P ret'"
        unfolding r' using \<open>required_in_properties ret\<close>
        by (simp add: required_in_properties_def)
      moreover note p kids[unfolded eq]
      ultimately have "all_nodes ?P ret'"
        unfolding r' by (subst all_nodes_iff) simp
      with r' ret(2) show ?thesis by simp
    next
      case other
      with s Some show ?thesis by (simp add: storeProperty_eq)
    qed
  qed
qed

lemma parsePico_range_required_in_properties:
  assumes "\<forall>(k, v) \<in> set m. (modifier k = Some ''*'' \<longrightarrow> \<not> isRequired k) \<and>
      (\<forall>p. parsePico v = Inr p \<longrightarrow>
         all_nodes (\<lambda>n. Type n = ''object'' \<longrightarrow> required_in_properties n) p)"
    and "all_nodes (\<lambda>n. Type n = ''object'' \<longrightarrow> required_in_properties n) ret"
    and "Type ret = ''object''"
    and "parsePico_range ret m = Inr r"
  shows "all_nodes (\<lambda>n. Type n = ''object'' \<longrightarrow> required_in_properties n) r"
  using assms
proof (induction m arbitrary: ret)
  case Nil
  then show ?case by simp
next
  case (Cons e m)
  obtain k v where e: "e = (k, v)" by (cases e)
  from Cons.prems(4) e obtain p ret' where
    p: "parsePico v = Inr p" and s: "storeProperty k p (markRequired k ret) = Inr ret'"
    and r: "parsePico_range ret' m = Inr r"
    by (auto split: sum.splits)
  from Cons.prems(1) e p have
    k: "modifier k = Some ''*'' \<longrightarrow> \<not> isRequired k"
    and pn: "all_nodes (\<lambda>n. Type n = ''object'' \<longrightarrow> required_in_properties n) p"
    by auto
  from storeProperty_required_in_properties[OF Cons.prems(2,3) pn k s]
  have "all_nodes (\<lambda>n. Type n = ''object'' \<longrightarrow> required_in_properties n) ret'"
    and "Type ret' = ''object''" by simp_all
  moreover from Cons.prems(1) have "\<forall>(k, v) \<in> set m. (modifier k = Some ''*'' \<longrightarrow> \<not> isRequired k) \<and>
      (\<forall>p. parsePico v = Inr p \<longrightarrow>
         all_nodes (\<lambda>n. Type n = ''object'' \<longrightarrow> required_in_properties n) p)"
    by simp
  ultimately show ?case using Cons.IH r by blast
qed

text \<open>
  Claim C3, as stated: in every result, the \<^verbatim>\<open>Required\<close> names of a node of type \<open>object\<close>
  are keys of its \<^verbatim>\<open>Properties\<close>. \<^verbatim>\<open>mapToJSONSchema\<close> assigns \<^verbatim>\<open>required\<close> and \<^verbatim>\<open>properties\<close>
  as the input gives them and compares nothing: an input with \<open>type: object\<close> and a
  \<^verbatim>\<open>required\<close> list translates to an object with no \<^verbatim>\<open>Properties\<close> at all. In \<^verbatim>\<open>parsePico\<close>,
  a key with a name and the modifier \<open>*\<close> is appended to \<^verbatim>\<open>Required\<close> (line 96) and stored
  as no property (line 128).
\<close>

theorem C3_counterexample:
  "ToJSONSchema (DMap [(''type'', DString ''object''), (''required'', DSlice [DString ''name''])]) =
     Returns (Some (Schema ''object'' [] None None None [''name''] None None []), None) \<and>
   \<not> required_in_properties (Schema ''object'' [] None None None [''name''] None None []) \<and>
   ToJSONSchema (DMap [(''name(*)'', DString ''string'')]) =
     Returns (Some (Schema ''object'' [] None (Some []) None [''name'']
        (Some (Schema ''string'' [] None None None [] None None [])) None []), None) \<and>
   \<not> required_in_properties (Schema ''object'' [] None (Some []) None [''name'']
        (Some (Schema ''string'' [] None None None [] None None [])) None [])"
  by (simp add: ToJSONSchema_def go_return_def jsonTypes_def mapToJSONSchema_def jsonMap_def
      required_in_properties_def markRequired_def storeProperty_def TrimSuffix_def CutSuffix_def
      Properties_Set_def suffix_def zeroSchema_def FalseSchema_def scalarTypes_def)

text \<open>
  Claim C3, amended. For every input that \<^verbatim>\<open>parsePico\<close> translates and in which every key
  with the modifier \<open>*\<close> has an empty or an optional name, every node of type \<open>object\<close> in
  the result has \<^verbatim>\<open>Properties\<close>, and its \<^verbatim>\<open>Required\<close> names are keys of them.
\<close>

theorem C3_required_in_properties:
  assumes "wildcards_unnamed v" and "parsePico v = Inr r"
  shows "\<forall>n \<in> set (nodes r). Type n = ''object'' \<longrightarrow> required_in_properties n"
proof -
  let ?P = "\<lambda>n. Type n = ''object'' \<longrightarrow> required_in_properties n"
  have "wildcards_unnamed v \<Longrightarrow> parsePico v = Inr r \<Longrightarrow> all_nodes ?P r" for v r
  proof (induction v arbitrary: r)
    case (DString val)
    obtain ty d f where c: "Cut val '','' = (ty, d, f)" by (cases "Cut val '',''") auto
    with DString.prems(2) have ty: "ty \<in> set scalarTypes"
      and r: "r = (if f then set_Description (TrimSpace d)
                     (set_Type (if ty = ''any'' then [] else ty) zeroSchema)
                   else set_Type (if ty = ''any'' then [] else ty) zeroSchema)"
      by (auto split: if_splits)
    from ty have "Type r \<noteq> ''object''"
      unfolding r by (auto simp: scalarTypes_def)
    then show ?case
      unfolding r by (subst all_nodes_iff) (auto split: if_splits)
  next
    case (DSlice vals)
    then show ?case by (subst all_nodes_iff) auto
  next
    case (DMap m)
    let ?ret = "set_AdditionalProperties (Some FalseSchema)
                  (set_Properties (Some []) (set_Type ''object'' zeroSchema))"
    have f: "all_nodes ?P FalseSchema"
      by (subst all_nodes_iff) (simp add: FalseSchema_def)
    have ret: "all_nodes ?P ?ret"
      using f by (subst all_nodes_iff) (simp add: required_in_properties_def)
    have entries: "\<forall>(k, v) \<in> set m. (modifier k = Some ''*'' \<longrightarrow> \<not> isRequired k) \<and>
        (\<forall>p. parsePico v = Inr p \<longrightarrow> all_nodes ?P p)"
    proof (clarify, intro conjI allI impI)
      fix k v
      assume kv: "(k, v) \<in> set m"
      with DMap.prems(1) show "\<not> isRequired k" if "modifier k = Some ''*''"
        using that by auto
      fix p
      assume "parsePico v = Inr p"
      moreover from kv DMap.prems(1) have "wildcards_unnamed v" by auto
      ultimately show "all_nodes ?P p"
        using DMap.IH[of "(k, v)" v p] kv by simp
    qed
    from DMap.prems(2) have "parsePico_range ?ret m = Inr r" by simp
    from parsePico_range_required_in_properties[OF entries ret _ this] show ?case by simp
  qed simp_all
  from this[OF assms] show ?thesis by (simp add: all_nodes_def)
qed

theorem C3_required_in_properties_witness:
  "wildcards_unnamed
     (DMap [(''name'', DString ''string''), (''(*)'', DString ''number''),
            (''home?(object)'', DMap [(''street'', DString ''string'')])]) \<and>
   parsePico
     (DMap [(''name'', DString ''string''), (''(*)'', DString ''number''),
            (''home?(object)'', DMap [(''street'', DString ''string'')])]) =
     Inr (Schema ''object'' [] None
       (Some [(''name'', Schema ''string'' [] None None None [] None None []),
              (''home'', Schema ''object'' [] None
                 (Some [(''street'', Schema ''string'' [] None None None [] None None [])])
                 None [''street'']
                 (Some (Schema [] [] None None None [] None (Some False) [])) None [])])
       None [''name''] (Some (Schema ''number'' [] None None None [] None None [])) None []) \<and>
   required_in_properties (Schema ''object'' [] None
       (Some [(''name'', Schema ''string'' [] None None None [] None None []),
              (''home'', Schema ''object'' [] None
                 (Some [(''street'', Schema ''string'' [] None None None [] None None [])])
                 None [''street'']
                 (Some (Schema [] [] None None None [] None (Some False) [])) None [])])
       None [''name''] (Some (Schema ''number'' [] None None None [] None None [])) None []) \<and>
   required_in_properties (Schema ''object'' [] None
                 (Some [(''street'', Schema ''string'' [] None None None [] None None [])])
                 None [''street'']
                 (Some (Schema [] [] None None None [] None (Some False) [])) None [])"
proof -
  let ?v = "DMap [(''name'', DString ''string''), (''(*)'', DString ''number''),
            (''home?(object)'', DMap [(''street'', DString ''string'')])]"
  let ?home = "Schema ''object'' [] None
                 (Some [(''street'', Schema ''string'' [] None None None [] None None [])])
                 None [''street'']
                 (Some (Schema [] [] None None None [] None (Some False) [])) None []"
  let ?r = "Schema ''object'' [] None
       (Some [(''name'', Schema ''string'' [] None None None [] None None []), (''home'', ?home)])
       None [''name''] (Some (Schema ''number'' [] None None None [] None None [])) None []"
  have a: "wildcards_unnamed ?v"
    by (simp add: modifier_def parenthetical_def isRequired_def keyName_def isOptional_def
        TrimSuffix_def CutSuffix_def suffix_def)
  have b: "parsePico ?v = Inr ?r"
    by (simp add: markRequired_def storeProperty_def TrimSuffix_def CutSuffix_def
        Properties_Set_def suffix_def zeroSchema_def FalseSchema_def scalarTypes_def)
  have c: "?r \<in> set (nodes ?r)" "?home \<in> set (nodes ?r)"
    by simp_all
  show ?thesis
    using C3_required_in_properties [OF a b] a b c by simp
qed

subsection \<open>Enumerations are not empty\<close>

lemma storeProperty_enum_nonempty:
  assumes ret: "all_nodes (\<lambda>n. Enum n \<noteq> Some []) ret"
    and p: "all_nodes (\<lambda>n. Enum n \<noteq> Some []) p"
    and s: "storeProperty k p (markRequired k ret) = Inr ret'"
  shows "all_nodes (\<lambda>n. Enum n \<noteq> Some []) ret'"
proof -
  let ?P = "\<lambda>n. Enum n \<noteq> Some []"
  let ?ret0 = "markRequired k ret"
  from ret have self: "?P ret" and kids:
    "\<forall>ps. Properties ?ret0 = Some ps \<longrightarrow> (\<forall>x \<in> set ps. all_nodes ?P (snd x))"
    "\<forall>c. Items ?ret0 = Some c \<longrightarrow> all_nodes ?P c"
    "\<forall>c. AdditionalProperties ?ret0 = Some c \<longrightarrow> all_nodes ?P c"
    "\<forall>x \<in> set (Fields ?ret0). \<forall>n \<in> set (fieldval_nodes (snd x)). ?P n"
    by (simp_all add: all_nodes_iff[of ?P ret])
  have stored: "all_nodes ?P (Properties_Set (propertyName k) c ?ret0)" if "all_nodes ?P c" for c
  proof -
    have "?P (Properties_Set (propertyName k) c ?ret0)"
      using self by simp
    from all_nodes_Properties_Set[of ?P, OF this that kids] show ?thesis .
  qed
  have d: "all_nodes ?P (describe k c)" if "all_nodes ?P c" for c
  proof -
    from that have "?P c" by (subst (asm) all_nodes_iff) simp
    then have "?P (describe k c)" by simp
    from all_nodes_same_children[of ?P, OF that this] show ?thesis by simp
  qed
  have e: "all_nodes ?P (set_Enum (Some (vals @ [DNil])) c)" if "all_nodes ?P c" for c vals
  proof -
    have "?P (set_Enum (Some (vals @ [DNil])) c)" by simp
    from all_nodes_same_children[of ?P, OF that this] show ?thesis by simp
  qed
  have arr: "all_nodes ?P (set_Items (Some p) (set_Type ''array'' zeroSchema))"
    using p by (subst all_nodes_iff) simp
  show ?thesis
  proof (cases "modifier k")
    case None
    with s have "ret' = Properties_Set (propertyName k) p ?ret0"
      by (simp add: storeProperty_eq)
    with stored[OF p] show ?thesis by simp
  next
    case (Some ty)
    consider (array) "ty = ''array''" | (object) "ty = ''object''" | (enum) "ty = ''enum''"
      | (wild) "ty = ''*''" | (other) "ty \<notin> {''array'', ''object'', ''enum'', ''*''}"
      by auto
    then show ?thesis
    proof cases
      case array
      with s Some have "ret' = Properties_Set (propertyName k)
          (describe k (set_Items (Some p) (set_Type ''array'' zeroSchema))) ?ret0"
        by (simp add: storeProperty_eq)
      with stored[OF d[OF arr]] show ?thesis by simp
    next
      case object
      with s Some have "ret' = Properties_Set (propertyName k) (describe k p) ?ret0"
        by (simp add: storeProperty_eq)
      with stored[OF d[OF p]] show ?thesis by simp
    next
      case enum
      with s Some obtain vals where "Enum p = Some vals"
        and "ret' = Properties_Set (propertyName k)
          (describe k (if isOptional k then set_Enum (Some (vals @ [DNil])) p else p)) ?ret0"
        by (auto simp: storeProperty_eq split: option.splits)
      with stored[OF d[OF e[OF p]]] stored[OF d[OF p]] show ?thesis
        by (cases "isOptional k") simp_all
    next
      case wild
      with s Some have r: "ret' = set_AdditionalProperties (Some p) ?ret0"
        by (simp add: storeProperty_eq)
      have "?P ret'"
        unfolding r using self by simp
      moreover note p kids
      ultimately show ?thesis
        unfolding r by (subst all_nodes_iff) simp
    next
      case other
      with s Some show ?thesis by (simp add: storeProperty_eq)
    qed
  qed
qed

lemma parsePico_range_enum_nonempty:
  assumes "\<forall>(k, v) \<in> set m. \<forall>p. parsePico v = Inr p \<longrightarrow> all_nodes (\<lambda>n. Enum n \<noteq> Some []) p"
    and "all_nodes (\<lambda>n. Enum n \<noteq> Some []) ret"
    and "parsePico_range ret m = Inr r"
  shows "all_nodes (\<lambda>n. Enum n \<noteq> Some []) r"
  using assms
proof (induction m arbitrary: ret)
  case Nil
  then show ?case by simp
next
  case (Cons e m)
  obtain k v where e: "e = (k, v)" by (cases e)
  from Cons.prems(3) e obtain p ret' where
    p: "parsePico v = Inr p" and s: "storeProperty k p (markRequired k ret) = Inr ret'"
    and r: "parsePico_range ret' m = Inr r"
    by (auto split: sum.splits)
  from Cons.prems(1) e p have pn: "all_nodes (\<lambda>n. Enum n \<noteq> Some []) p"
    by auto
  from storeProperty_enum_nonempty[OF Cons.prems(2) pn s]
  have "all_nodes (\<lambda>n. Enum n \<noteq> Some []) ret'" .
  moreover from Cons.prems(1)
  have "\<forall>(k, v) \<in> set m. \<forall>p. parsePico v = Inr p \<longrightarrow> all_nodes (\<lambda>n. Enum n \<noteq> Some []) p"
    by simp
  ultimately show ?case using Cons.IH r by blast
qed

lemma parsePico_enum_nonempty:
  "sequences_nonempty v \<Longrightarrow> parsePico v = Inr r \<Longrightarrow> all_nodes (\<lambda>n. Enum n \<noteq> Some []) r"
proof (induction v arbitrary: r)
  case (DString val)
  obtain ty d f where c: "Cut val '','' = (ty, d, f)" by (cases "Cut val '',''") auto
  with DString.prems(2) have
    r: "r = (if f then set_Description (TrimSpace d)
                   (set_Type (if ty = ''any'' then [] else ty) zeroSchema)
                 else set_Type (if ty = ''any'' then [] else ty) zeroSchema)"
    by (auto split: if_splits)
  show ?case
    unfolding r by (subst all_nodes_iff) (auto split: if_splits)
next
  case (DSlice vals)
  then show ?case by (subst all_nodes_iff) auto
next
  case (DMap m)
  let ?P = "\<lambda>n. Enum n \<noteq> Some []"
  let ?ret = "set_AdditionalProperties (Some FalseSchema)
                (set_Properties (Some []) (set_Type ''object'' zeroSchema))"
  have f: "all_nodes ?P FalseSchema"
    by (subst all_nodes_iff) (simp add: FalseSchema_def)
  have ret: "all_nodes ?P ?ret"
    using f by (subst all_nodes_iff) simp
  have entries: "\<forall>(k, v) \<in> set m. \<forall>p. parsePico v = Inr p \<longrightarrow> all_nodes ?P p"
  proof (clarify)
    fix k v p
    assume kv: "(k, v) \<in> set m" and "parsePico v = Inr p"
    moreover from kv DMap.prems(1) have "sequences_nonempty v" by auto
    ultimately show "all_nodes ?P p"
      using DMap.IH[of "(k, v)" v p] by simp
  qed
  from DMap.prems(2) have "parsePico_range ?ret m = Inr r" by simp
  from parsePico_range_enum_nonempty[OF entries ret this] show ?case .
qed simp_all

text \<open>\<^verbatim>\<open>mapToJSONSchema\<close> assigns no \<^verbatim>\<open>Enum\<close>: no case of its switch is for the type \<^verbatim>\<open>[]any\<close>.\<close>

lemma mapToJSONSchema_no_Enum:
  "all_nodes (\<lambda>n. Enum n = None) ret \<Longrightarrow> mapToJSONSchema_range ret m = Returns (Inr r) \<Longrightarrow>
     all_nodes (\<lambda>n. Enum n = None) r"
  "\<forall>c \<in> set acc. all_nodes (\<lambda>n. Enum n = None) c \<Longrightarrow>
     mapToJSONSchema_slice k acc s = Returns (Inr rs) \<Longrightarrow>
     \<forall>c \<in> set rs. all_nodes (\<lambda>n. Enum n = None) c"
  "\<forall>x \<in> set om. all_nodes (\<lambda>n. Enum n = None) (snd x) \<Longrightarrow>
     mapToJSONSchema_om k' om mm = Returns (Inr ro) \<Longrightarrow>
     \<forall>x \<in> set ro. all_nodes (\<lambda>n. Enum n = None) (snd x)"
proof (induction ret m and k acc s and k' om mm arbitrary: r and rs and ro
    rule: mapToJSONSchema_range_mapToJSONSchema_slice_mapToJSONSchema_om.induct)
  case (1 ret)
  then show ?case by simp
next
  case (2 ret k v rest)
  let ?N = "\<lambda>n. Enum n = None"
  have zero: "all_nodes ?N zeroSchema"
    by (subst all_nodes_iff) simp
  from "2.prems"(1) have self: "Enum ret = None"
    by (subst (asm) all_nodes_iff) simp
  have step: "all_nodes ?N r"
    if "map_of jsonMap k = Some ty" and "\<forall>n \<in> set (fieldval_nodes fv). Enum n = None"
      and conv: "(if ty = TSchemaPtr then
                (case v of
                   DMap m \<Rightarrow>
                     (case mapToJSONSchema_range zeroSchema m of
                        Panics \<Rightarrow> Panics
                      | Returns (Inl err) \<Rightarrow> Returns (Inl (FailedToConvertField k err))
                      | Returns (Inr c) \<Rightarrow> Returns (Inr (VSchema c)))
                 | _ \<Rightarrow> Returns (Inl (FoundTypeWant v k ''map[string]interface {}'')))
              else if ty = TSchemaSlice then
                (case v of
                   DMapSlice s \<Rightarrow>
                     (case mapToJSONSchema_slice k [] s of
                        Panics \<Rightarrow> Panics
                      | Returns (Inl err) \<Rightarrow> Returns (Inl err)
                      | Returns (Inr cs) \<Rightarrow> Returns (Inr (VSchemas cs)))
                 | _ \<Rightarrow> Returns (Inl (FoundTypeWant v k ''[]map[string]interface {}'')))
              else if ty = TOrderedMap then
                (case v of
                   DMap m \<Rightarrow>
                     (case mapToJSONSchema_om k [] m of
                        Panics \<Rightarrow> Panics
                      | Returns (Inl err) \<Rightarrow> Returns (Inl err)
                      | Returns (Inr ps) \<Rightarrow> Returns (Inr (VProperties ps)))
                 | _ \<Rightarrow> Returns (Inl (FoundTypeWant v k ''map[string]interface {}'')))
              else convertField ty k v) = Returns (Inr fv)"
      and "mapToJSONSchema_range (rf_Set k fv ret) rest = Returns (Inr r)" for ty fv
  proof -
    have "all_nodes ?N (rf_Set k fv ret)"
      using "2.prems"(1) self that(2) by (intro all_nodes_rf_Set) simp_all
    from "2.IH"(4)[OF that(1) conv refl this that(4)] show ?thesis .
  qed
  from "2.prems"(2) show ?case
  proof (cases rule: mapToJSONSchema_range_ConsE)
    case (ptr m c)
    from "2.IH"(1)[OF ptr(1) refl ptr(2) zero ptr(3)]
    have "\<forall>n \<in> set (fieldval_nodes (VSchema c)). Enum n = None"
      by (simp add: all_nodes_def)
    from step[OF ptr(1) this _ ptr(4)] ptr show ?thesis by simp
  next
    case (slice s cs)
    from "2.IH"(2)[OF slice(1) _ refl slice(2) _ slice(3)]
    have "\<forall>n \<in> set (fieldval_nodes (VSchemas cs)). Enum n = None"
      by (simp add: all_nodes_def)
    from step[OF slice(1) this _ slice(4)] slice show ?thesis by simp
  next
    case (om m ps)
    from "2.IH"(3)[OF om(1) _ _ refl om(2) _ om(3)]
    have "\<forall>n \<in> set (fieldval_nodes (VProperties ps)). Enum n = None"
      by (simp add: all_nodes_def case_prod_beta)
    from step[OF om(1) this _ om(4)] om show ?thesis by simp
  next
    case (scalar ty fv)
    from convertField_nodes[OF scalar(5)]
    have "\<forall>n \<in> set (fieldval_nodes fv). Enum n = None" by simp
    from step[OF scalar(1) this _ scalar(6)] scalar show ?thesis by simp
  qed
next
  case (3 k schemas)
  then show ?case by simp
next
  case (4 k schemas m s)
  have zero: "all_nodes (\<lambda>n. Enum n = None) zeroSchema"
    by (subst all_nodes_iff) simp
  from "4.prems"(2) obtain c where c: "mapToJSONSchema_range zeroSchema m = Returns (Inr c)"
    and rest: "mapToJSONSchema_slice k (schemas @ [c]) s = Returns (Inr rs)"
    by (auto split: outcome.splits sum.splits)
  from "4.IH"(1)[OF zero c] "4.prems"(1)
  have "\<forall>c \<in> set (schemas @ [c]). all_nodes (\<lambda>n. Enum n = None) c" by simp
  from "4.IH"(2)[OF c refl this rest] show ?case .
next
  case (5 k om)
  then show ?case by simp
next
  case (6 k om mk mv rest)
  have zero: "all_nodes (\<lambda>n. Enum n = None) zeroSchema"
    by (subst all_nodes_iff) simp
  from "6.prems"(2) obtain mvm c where mv: "mv = DMap mvm"
    and c: "mapToJSONSchema_range zeroSchema mvm = Returns (Inr c)"
    and rest: "mapToJSONSchema_om k (om_Set mk c om) rest = Returns (Inr ro)"
    by (auto split: dyn.splits outcome.splits sum.splits)
  from "6.IH"(1)[OF mv zero c] have "all_nodes (\<lambda>n. Enum n = None) c" .
  with "6.prems"(1) set_om_Set[of mk c om]
  have "\<forall>x \<in> set (om_Set mk c om). all_nodes (\<lambda>n. Enum n = None) (snd x)" by auto
  from "6.IH"(2)[OF mv c refl this rest] show ?case .
qed

text \<open>
  Claim C8, as stated: in every result, a node that carries an \<^verbatim>\<open>Enum\<close> has a non-empty one.
  \<^verbatim>\<open>parsePico\<close> takes a sequence as the \<^verbatim>\<open>Enum\<close> whatever its length (line 84), and the test
  of line 120 is against \<^verbatim>\<open>nil\<close> only: the empty sequence translates to a node whose
  \<^verbatim>\<open>Enum\<close> is empty, also under a key with the modifier \<open>enum\<close>.
\<close>

theorem C8_counterexample:
  "ToJSONSchema (DSlice []) = Returns (Some (Schema [] [] (Some []) None None [] None None []), None) \<and>
   ToJSONSchema (DMap [(''color(enum)'', DSlice [])]) =
     Returns (Some (Schema ''object'' [] None
        (Some [(''color'', Schema [] [] (Some []) None None [] None None [])])
        None [''color'']
        (Some (Schema [] [] None None None [] None (Some False) [])) None []), None)"
  by (simp add: ToJSONSchema_def go_return_def jsonTypes_def markRequired_def storeProperty_def
      TrimSuffix_def CutSuffix_def Properties_Set_def suffix_def zeroSchema_def FalseSchema_def)

text \<open>
  Claim C8, amended. For every input in which no sequence that \<^verbatim>\<open>parsePico\<close> parses (the
  input itself, or the value of an entry of a parsed mapping) is empty: if the translation
  succeeds, every node of the result that carries an \<^verbatim>\<open>Enum\<close> has a non-empty one.
\<close>

theorem C8_enum_nonempty:
  assumes "sequences_nonempty v" and "ToJSONSchema v = Returns (Some r, None)"
  shows "\<forall>n \<in> set (nodes r). \<forall>vals. Enum n = Some vals \<longrightarrow> vals \<noteq> []"
proof -
  from assms(2) consider
      (struct) m where "v = DMap m" "mapToJSONSchema m = Returns (Inr r)"
    | (props) m s where "v = DMap m" "mapToJSONSchema m = Returns (Inr s)"
        "r = set_Type ''object'' s"
    | (pico) "parsePico v = Inr r"
    by (auto simp: ToJSONSchema_def go_return_def
        split: if_splits dyn.splits option.splits outcome.splits sum.splits)
  then have "all_nodes (\<lambda>n. Enum n \<noteq> Some []) r"
  proof cases
    case struct
    have "all_nodes (\<lambda>n. Enum n = None) zeroSchema"
      by (subst all_nodes_iff) simp
    from mapToJSONSchema_no_Enum(1)[OF this struct(2)[unfolded mapToJSONSchema_def]]
    show ?thesis by (rule all_nodes_mono[rotated]) simp
  next
    case props
    have "all_nodes (\<lambda>n. Enum n = None) zeroSchema"
      by (subst all_nodes_iff) simp
    from mapToJSONSchema_no_Enum(1)[OF this props(2)[unfolded mapToJSONSchema_def]]
    have s: "all_nodes (\<lambda>n. Enum n = None) s" .
    then have "Enum s = None"
      by (subst (asm) all_nodes_iff) simp
    then have "Enum (set_Type ''object'' s) = None" by simp
    from all_nodes_same_children[of "\<lambda>n. Enum n = None", OF s this]
    have "all_nodes (\<lambda>n. Enum n = None) r"
      unfolding props(3) by simp
    then show ?thesis by (rule all_nodes_mono[rotated]) simp
  next
    case pico
    from parsePico_enum_nonempty[OF assms(1) this] show ?thesis .
  qed
  then show ?thesis by (auto simp: all_nodes_def)
qed

theorem C8_enum_nonempty_witness:
  "sequences_nonempty (DMap [(''color?(enum)'', DSlice [DString ''red'', DString ''green''])]) \<and>
   ToJSONSchema (DMap [(''color?(enum)'', DSlice [DString ''red'', DString ''green''])]) =
     Returns (Some (Schema ''object'' [] None
        (Some [(''color'',
           Schema [] [] (Some [DString ''red'', DString ''green'', DNil])
             None None [] None None [])])
        None []
        (Some (Schema [] [] None None None [] None (Some False) [])) None []), None) \<and>
   Enum (Schema [] [] (Some [DString ''red'', DString ''green'', DNil])
           None None [] None None []) = Some [DString ''red'', DString ''green'', DNil] \<and>
   [DString ''red'', DString ''green'', DNil] \<noteq> []"
proof -
  let ?v = "DMap [(''color?(enum)'', DSlice [DString ''red'', DString ''green''])]"
  let ?c = "Schema [] [] (Some [DString ''red'', DString ''green'', DNil])
             None None [] None None []"
  let ?r = "Schema ''object'' [] None (Some [(''color'', ?c)]) None []
        (Some (Schema [] [] None None None [] None (Some False) [])) None []"
  have a: "sequences_nonempty ?v"
    by simp
  have b: "ToJSONSchema ?v = Returns (Some ?r, None)"
    by (simp add: ToJSONSchema_def go_return_def jsonTypes_def markRequired_def storeProperty_def
        TrimSuffix_def CutSuffix_def Properties_Set_def suffix_def zeroSchema_def
        FalseSchema_def)
  have c: "?c \<in> set (nodes ?r)"
    by simp
  show ?thesis
    using C8_enum_nonempty [OF a b] a b c by simp
qed

end
